theory Spec2Isabelle
  imports Complex_Main "HOL-Library.AList" "HOL-Library.Log_Nat"
begin

section \<open>Data model\<close>

text \<open>
  The shot pipeline of \<^verbatim>\<open>backend/app/services/analysis.py\<close> and the tracker of
  \<^verbatim>\<open>backend/app/services/detection.py\<close>. A Python float is an IEEE 754 double; it is
  modelled by the real number it denotes, and every arithmetic operation on floats rounds its
  exact result to the nearest double (section Floating-point arithmetic). Python's unbounded
  integers are \<^typ>\<open>int\<close>, strings are \<^typ>\<open>string\<close>, and a \<^verbatim>\<open>dict\<close> whose iteration order
  matters is an association list in insertion order.
\<close>

datatype py_error = IndexError | ZeroDivisionError | ValueError

text \<open>The \<^verbatim>\<open>bbox\<close> dictionary of a detection.\<close>

record bbox =
  x1 :: real
  y1 :: real
  x2 :: real
  y2 :: real
  center_x :: real
  center_y :: real

text \<open>One entry of a track: the dictionary appended by \<^verbatim>\<open>track_objects\<close>.\<close>

record sample =
  s_frame :: int
  s_timestamp :: real
  s_x :: real
  s_y :: real
  s_bbox :: bbox

text \<open>The dataclass \<^verbatim>\<open>ShotEvent\<close>; the field \<^verbatim>\<open>id\<close> is \<open>shot_id\<close> here.\<close>

record ShotEvent =
  shot_id :: int
  frame_start :: int
  frame_end :: int
  release_x :: real
  release_y :: real
  outcome :: string
  zone :: string
  confidence :: real
  timestamp :: real
  trajectory :: "(real \<times> real) list"

section \<open>Floating-point arithmetic\<close>

text \<open>
  Rounding to an integer, a tie going to the even neighbour: the rule of IEEE 754 for a
  result that lies between two doubles, and of Python's \<^verbatim>\<open>round\<close>.
\<close>

definition round_half_even :: "real \<Rightarrow> int" where
  "round_half_even x =
     (let f = \<lfloor>x\<rfloor>; d = x - real_of_int f
      in if d < 1 / 2 then f else if d > 1 / 2 then f + 1 else if even f then f else f + 1)"

text \<open>
  The binary exponent of a real number other than 0: the \<open>e\<close> with
  \<open>2\<^sup>e \<le> |x| < 2\<^sup>e\<^sup>+\<^sup>1\<close>, read off the bit length of the integer part of \<open>|x|\<close>, or of
  \<open>1 / |x|\<close> when \<open>|x| < 1\<close>.
\<close>

definition expo :: "real \<Rightarrow> int" where
  "expo x = (if 1 \<le> \<bar>x\<bar> then bitlen \<lfloor>\<bar>x\<bar>\<rfloor> - 1 else - bitlen (\<lceil>1 / \<bar>x\<bar>\<rceil> - 1))"

text \<open>
  The double nearest to a real number, ties to even. A double has 53 significant bits: the
  doubles with exponent \<open>e\<close> are the multiples of \<open>2\<^sup>e\<^sup>-\<^sup>5\<^sup>2\<close>, and below \<open>2\<^sup>-\<^sup>1\<^sup>0\<^sup>2\<^sup>2\<close> the
  spacing stays \<open>2\<^sup>-\<^sup>1\<^sup>0\<^sup>7\<^sup>4\<close>. A decimal literal of the source denotes \<open>rd\<close> of the decimal:
  \<^verbatim>\<open>0.2\<close> is \<open>rd 0.2\<close>, which is not the real number 0.2. The range of the exponent is not
  bounded above: no operation of the shot pipeline can exceed the largest double on doubles,
  and NaN and the infinities are not values of the model.
\<close>

definition rd :: "real \<Rightarrow> real" where
  "rd x = (let q = max (expo x) (- 1022) - 52
           in real_of_int (round_half_even (x / 2 powi q)) * 2 powi q)"

text \<open>
  The operations \<^verbatim>\<open>+\<close>, \<^verbatim>\<open>-\<close>, \<^verbatim>\<open>*\<close>, \<^verbatim>\<open>/\<close> on floats and \<^verbatim>\<open>np.sqrt\<close>: the exact result,
  rounded. Comparisons, \<^verbatim>\<open>abs\<close>, \<^verbatim>\<open>min\<close> and \<^verbatim>\<open>max\<close> are exact on doubles and need no
  rounding. A division is written \<open>fdiv\<close> only where the source divides by a constant other
  than 0 or behind a test of the divisor.
\<close>

definition fadd :: "real \<Rightarrow> real \<Rightarrow> real" where
  "fadd x y = rd (x + y)"

definition fsub :: "real \<Rightarrow> real \<Rightarrow> real" where
  "fsub x y = rd (x - y)"

definition fmul :: "real \<Rightarrow> real \<Rightarrow> real" where
  "fmul x y = rd (x * y)"

definition fdiv :: "real \<Rightarrow> real \<Rightarrow> real" where
  "fdiv x y = rd (x / y)"


section \<open>The random source\<close>

text \<open>
  The code draws from numpy's process-wide generator. The generator is made explicit: a
  stream of draws and the position of the next draw. Every call consumes one draw and returns
  the advanced state. A draw of the generator is one of the \<open>2\<^sup>5\<^sup>3\<close> doubles \<open>k / 2\<^sup>5\<^sup>3\<close> with
  \<open>0 \<le> k < 2\<^sup>5\<^sup>3\<close>.
\<close>

record rng =
  draws :: "nat \<Rightarrow> real"
  pos :: nat

definition valid_rng :: "rng \<Rightarrow> bool" where
  "valid_rng g = (\<forall>n. \<exists>k < 2 ^ 53. draws g n = real k / 2 ^ 53)"

text \<open>\<^verbatim>\<open>np.random.random()\<close>\<close>

definition random :: "rng \<Rightarrow> real \<times> rng" where
  "random g = (draws g (pos g), g\<lparr>pos := pos g + 1\<rparr>)"

text \<open>
  \<^verbatim>\<open>np.random.uniform(low, high)\<close>: \<open>low + (high - low) * u\<close> for one draw \<open>u\<close>, each
  operation rounded. (Where the product and the sum are fused into one operation with one
  rounding, the value is the same for the lower bound 0, the lower bound of the confidence.)
\<close>

definition uniform :: "real \<Rightarrow> real \<Rightarrow> rng \<Rightarrow> real \<times> rng" where
  "uniform low high g =
     (case random g of (u, g') \<Rightarrow> (fadd low (fmul (fsub high low) u), g'))"

text \<open>
  \<^verbatim>\<open>np.random.choice(a, p=p)\<close>: the running sums of \<open>p\<close> are divided by the last of them,
  one draw \<open>u\<close> is located in them (\<^verbatim>\<open>searchsorted\<close> from the right: the number of sums that
  do not exceed \<open>u\<close>, the sums being in ascending order), and the element at that index is
  returned. An index past the end raises. The check that \<open>p\<close> sums to 1, which the weights
  of the one call site pass, is left out.
\<close>

fun cumsum_loop :: "real \<Rightarrow> real list \<Rightarrow> real list" where
  "cumsum_loop acc [] = []"
| "cumsum_loop acc (p # ps) = fadd acc p # cumsum_loop (fadd acc p) ps"

definition cumsum :: "real list \<Rightarrow> real list" where
  "cumsum ps = (case ps of [] \<Rightarrow> [] | p # rest \<Rightarrow> p # cumsum_loop p rest)"

definition searchsorted_right :: "real list \<Rightarrow> real \<Rightarrow> nat" where
  "searchsorted_right cdf u = length (takeWhile (\<lambda>c. c \<le> u) cdf)"

definition choice :: "'a list \<Rightarrow> real list \<Rightarrow> rng \<Rightarrow> (py_error + 'a) \<times> rng" where
  "choice as ps g =
     (case random g of
        (u, g') \<Rightarrow>
          (let cdf = cumsum ps;
               cdf = map (\<lambda>c. fdiv c (last cdf)) cdf;
               idx = searchsorted_right cdf u
           in (if idx < length as then Inr (as ! idx) else Inl IndexError, g')))"

section \<open>Zone classifier\<close>

text \<open>
  \<^verbatim>\<open>self.zones\<close>: a dictionary literal, iterated in the order it is written. Each entry
  is the zone name with its \<^verbatim>\<open>x_range\<close> and \<^verbatim>\<open>y_range\<close>; the bounds are the doubles of
  the literals.
\<close>

definition zones :: "(string \<times> (real \<times> real) \<times> (real \<times> real)) list" where
  "zones =
    [(''paint'', (rd 0.35, rd 0.65), (0, rd 0.25)),
     (''left-corner'', (0, rd 0.25), (rd 0.6, rd 1.0)),
     (''right-corner'', (rd 0.75, rd 1.0), (rd 0.6, rd 1.0)),
     (''left-wing'', (0, rd 0.35), (rd 0.25, rd 0.6)),
     (''right-wing'', (rd 0.65, rd 1.0), (rd 0.25, rd 0.6)),
     (''top-key'', (rd 0.35, rd 0.65), (rd 0.4, rd 0.7)),
     (''mid-range'', (rd 0.25, rd 0.75), (rd 0.25, rd 0.4))]"

text \<open>The test of the loop body of \<^verbatim>\<open>_get_zone\<close>.\<close>

definition in_bounds :: "(real \<times> real) \<times> (real \<times> real) \<Rightarrow> real \<Rightarrow> real \<Rightarrow> bool" where
  "in_bounds b nx ny =
     (case b of (x_range, y_range) \<Rightarrow>
        fst x_range \<le> nx \<and> nx \<le> snd x_range \<and> fst y_range \<le> ny \<and> ny \<le> snd y_range)"

text \<open>The \<^verbatim>\<open>for\<close> loop of \<^verbatim>\<open>_get_zone\<close> with its early return and the final default.\<close>

fun get_zone_loop :: "(string \<times> (real \<times> real) \<times> (real \<times> real)) list \<Rightarrow> real \<Rightarrow> real \<Rightarrow> string" where
  "get_zone_loop [] nx ny = ''mid-range''"
| "get_zone_loop ((zone_name, bounds) # rest) nx ny =
     (if in_bounds bounds nx ny then zone_name else get_zone_loop rest nx ny)"

text \<open>\<^verbatim>\<open>_get_zone\<close>: the two quotients by the frame size are rounded.\<close>

definition get_zone :: "real \<Rightarrow> real \<Rightarrow> string" where
  "get_zone x y = (let nx = fdiv x 1920; ny = fdiv y 1080 in get_zone_loop zones nx ny)"

section \<open>Python helpers of the aggregator\<close>

text \<open>
  True division of two integers: \<^verbatim>\<open>a / b\<close> raises on a zero divisor, and otherwise is the
  double nearest to the quotient. The quotients taken here are those of a number of made
  shots by a number of attempts, far from the range where the division overflows.
\<close>

definition py_truediv :: "int \<Rightarrow> int \<Rightarrow> py_error + real" where
  "py_truediv a b =
     (if b = 0 then Inl ZeroDivisionError else Inr (fdiv (real_of_int a) (real_of_int b)))"

text \<open>
  \<^verbatim>\<open>round(x, ndigits)\<close> on a float: the multiple of \<open>10\<^sup>-\<^sup>n\<close> nearest to the value of the
  double \<open>x\<close>, a tie going to the even neighbour, and of that decimal the nearest double.
\<close>

definition py_round :: "real \<Rightarrow> nat \<Rightarrow> real" where
  "py_round x ndigits = rd (real_of_int (round_half_even (x * 10 ^ ndigits)) / 10 ^ ndigits)"

text \<open>\<^verbatim>\<open>str.replace\<close> for one-character strings and \<^verbatim>\<open>str.title\<close>, on ASCII.\<close>

definition is_lower :: "char \<Rightarrow> bool" where
  "is_lower c = (97 \<le> (of_char c :: nat) \<and> (of_char c :: nat) \<le> 122)"

definition is_upper :: "char \<Rightarrow> bool" where
  "is_upper c = (65 \<le> (of_char c :: nat) \<and> (of_char c :: nat) \<le> 90)"

definition to_upper :: "char \<Rightarrow> char" where
  "to_upper c = (if is_lower c then char_of ((of_char c :: nat) - 32) else c)"

definition to_lower :: "char \<Rightarrow> char" where
  "to_lower c = (if is_upper c then char_of ((of_char c :: nat) + 32) else c)"

fun title_loop :: "bool \<Rightarrow> string \<Rightarrow> string" where
  "title_loop previous_is_cased [] = []"
| "title_loop previous_is_cased (c # cs) =
     (if is_lower c then (if previous_is_cased then c else to_upper c) # title_loop True cs
      else if is_upper c then (if previous_is_cased then to_lower c else c) # title_loop True cs
      else c # title_loop False cs)"

definition title :: "string \<Rightarrow> string" where
  "title s = title_loop False s"

definition replace_char :: "char \<Rightarrow> char \<Rightarrow> string \<Rightarrow> string" where
  "replace_char old new s = map (\<lambda>c. if c = old then new else c) s"

text \<open>\<^verbatim>\<open>zone.replace("-", " ").title()\<close>\<close>

definition display_name :: "string \<Rightarrow> string" where
  "display_name z = title (replace_char CHR ''-'' CHR '' '' z)"

text \<open>
  The key function of \<^verbatim>\<open>max\<close> and \<^verbatim>\<open>sorted\<close> is called once per item, in order; the
  first call that raises ends the whole expression.
\<close>

fun keyed :: "('a \<Rightarrow> py_error + real) \<Rightarrow> 'a list \<Rightarrow> py_error + (real \<times> 'a) list" where
  "keyed key [] = Inr []"
| "keyed key (a # as) =
     (case key a of
        Inl e \<Rightarrow> Inl e
      | Inr k \<Rightarrow> (case keyed key as of Inl e \<Rightarrow> Inl e | Inr ks \<Rightarrow> Inr ((k, a) # ks)))"

text \<open>
  \<^verbatim>\<open>max(items, key=..., default=...)\<close>: the running maximum is replaced only by an item
  whose key is strictly greater, so the first of several maximal items is returned.
\<close>

fun max_loop :: "real \<times> 'a \<Rightarrow> (real \<times> 'a) list \<Rightarrow> real \<times> 'a" where
  "max_loop best [] = best"
| "max_loop best (a # as) = (if fst a > fst best then max_loop a as else max_loop best as)"

definition py_max :: "('a \<Rightarrow> py_error + real) \<Rightarrow> 'a \<Rightarrow> 'a list \<Rightarrow> py_error + 'a" where
  "py_max key dflt items =
     (case keyed key items of
        Inl e \<Rightarrow> Inl e
      | Inr [] \<Rightarrow> Inr dflt
      | Inr (a # as) \<Rightarrow> Inr (snd (max_loop a as)))"

text \<open>
  \<^verbatim>\<open>sorted(items, key=..., reverse=True)\<close>: a stable sort; with \<^verbatim>\<open>reverse=True\<close> the list
  is reversed, sorted ascending and reversed again, so items of equal key keep their order.
\<close>

definition py_sorted_reverse :: "('a \<Rightarrow> py_error + real) \<Rightarrow> 'a list \<Rightarrow> py_error + 'a list" where
  "py_sorted_reverse key items =
     (case keyed key items of
        Inl e \<Rightarrow> Inl e
      | Inr ks \<Rightarrow> Inr (map snd (rev (sort_key fst (rev ks)))))"

section \<open>Statistics aggregator\<close>

text \<open>The inner dictionary \<^verbatim>\<open>{"makes": .., "attempts": ..}\<close> kept per zone.\<close>

record zone_counts =
  zc_makes :: int
  zc_attempts :: int

text \<open>
  The body of the per-zone loop, the same in \<^verbatim>\<open>_calculate_statistics\<close> and
  \<^verbatim>\<open>_calculate_zone_stats\<close>. The dictionary keeps insertion order; the two increments
  act on the entry the first statement has made sure exists.
\<close>

definition count_shot :: "ShotEvent \<Rightarrow> (string \<times> zone_counts) list \<Rightarrow> (string \<times> zone_counts) list" where
  "count_shot shot zone_stats =
     (let zs1 = (if map_of zone_stats (zone shot) = None
                 then AList.update (zone shot) \<lparr>zc_makes = 0, zc_attempts = 0\<rparr> zone_stats
                 else zone_stats);
          zs2 = AList.map_entry (zone shot) (\<lambda>c. c\<lparr>zc_attempts := zc_attempts c + 1\<rparr>) zs1
      in if outcome shot = ''make''
         then AList.map_entry (zone shot) (\<lambda>c. c\<lparr>zc_makes := zc_makes c + 1\<rparr>) zs2
         else zs2)"

fun count_zones :: "ShotEvent list \<Rightarrow> (string \<times> zone_counts) list \<Rightarrow> (string \<times> zone_counts) list" where
  "count_zones [] zone_stats = zone_stats"
| "count_zones (shot # shots) zone_stats = count_zones shots (count_shot shot zone_stats)"

text \<open>The dictionary returned by \<^verbatim>\<open>_calculate_statistics\<close>.\<close>

record Statistics =
  totalShots :: int
  makes :: int
  misses :: int
  fieldGoalPercentage :: real
  threePointPercentage :: real
  hotZone :: string
  avgReleaseTime :: real

definition three_zones :: "string set" where
  "three_zones = {''left-corner'', ''right-corner'', ''left-wing'', ''right-wing'', ''top-key''}"

text \<open>The key of the hot-zone \<^verbatim>\<open>max\<close>.\<close>

definition hot_key :: "string \<times> zone_counts \<Rightarrow> py_error + real" where
  "hot_key x =
     (if zc_attempts (snd x) > 2 then py_truediv (zc_makes (snd x)) (zc_attempts (snd x))
      else Inr 0)"

definition hot_zone :: "ShotEvent list \<Rightarrow> py_error + string" where
  "hot_zone shots =
     (case py_max hot_key (''mid-range'', \<lparr>zc_makes = 0, zc_attempts = 1\<rparr>)
             (count_zones shots []) of
        Inl e \<Rightarrow> Inl e
      | Inr best \<Rightarrow> Inr (fst best))"

definition calculate_statistics :: "ShotEvent list \<Rightarrow> rng \<Rightarrow> py_error + (Statistics \<times> rng)" where
  "calculate_statistics shots g =
     (let total = int (length shots);
          mk = int (length (filter (\<lambda>s. outcome s = ''make'') shots));
          ms = total - mk;
          three_shots = filter (\<lambda>s. zone s \<in> three_zones) shots;
          three_makes = int (length (filter (\<lambda>s. outcome s = ''make'') three_shots))
      in case (if three_shots \<noteq> []
               then (case py_truediv three_makes (int (length three_shots)) of
                       Inl e \<Rightarrow> Inl e | Inr q \<Rightarrow> Inr (fmul q 100))
               else Inr 0) of
           Inl e \<Rightarrow> Inl e
         | Inr three_pct \<Rightarrow>
        (case hot_zone shots of
           Inl e \<Rightarrow> Inl e
         | Inr hz \<Rightarrow>
        (case (if total > 0
               then (case py_truediv mk total of
                       Inl e \<Rightarrow> Inl e | Inr q \<Rightarrow> Inr (py_round (fmul q 100) 1))
               else Inr 0) of
           Inl e \<Rightarrow> Inl e
         | Inr fg \<Rightarrow>
        (case uniform 0 (rd 0.15) g of (u, g') \<Rightarrow>
           Inr (\<lparr>totalShots = total, makes = mk, misses = ms,
                 fieldGoalPercentage = fg,
                 threePointPercentage = py_round three_pct 1,
                 hotZone = display_name hz,
                 avgReleaseTime = py_round (fadd 0.75 u) 2\<rparr>, g')))))"

text \<open>One entry of the list returned by \<^verbatim>\<open>_calculate_zone_stats\<close>.\<close>

record ZoneStats =
  name :: string
  attempts :: int
  zone_makes :: int
  percentage :: real

text \<open>The key of the \<^verbatim>\<open>sorted\<close> call.\<close>

definition rate_key :: "string \<times> zone_counts \<Rightarrow> py_error + real" where
  "rate_key x =
     (if zc_attempts (snd x) > 0 then py_truediv (zc_makes (snd x)) (zc_attempts (snd x))
      else Inr 0)"

text \<open>The body of the second loop: one output entry per zone.\<close>

definition zone_entry :: "string \<times> zone_counts \<Rightarrow> py_error + ZoneStats" where
  "zone_entry x =
     (case (if zc_attempts (snd x) > 0
            then (case py_truediv (zc_makes (snd x)) (zc_attempts (snd x)) of
                    Inl e \<Rightarrow> Inl e | Inr q \<Rightarrow> Inr (py_round (fmul q 100) 1))
            else Inr 0) of
        Inl e \<Rightarrow> Inl e
      | Inr pct \<Rightarrow>
          Inr \<lparr>name = display_name (fst x), attempts = zc_attempts (snd x),
               zone_makes = zc_makes (snd x), percentage = pct\<rparr>)"

fun zone_entries :: "(string \<times> zone_counts) list \<Rightarrow> py_error + ZoneStats list" where
  "zone_entries [] = Inr []"
| "zone_entries (x # xs) =
     (case zone_entry x of
        Inl e \<Rightarrow> Inl e
      | Inr z \<Rightarrow> (case zone_entries xs of Inl e \<Rightarrow> Inl e | Inr zs \<Rightarrow> Inr (z # zs)))"

definition calculate_zone_stats :: "ShotEvent list \<Rightarrow> py_error + ZoneStats list" where
  "calculate_zone_stats shots =
     (case py_sorted_reverse rate_key (count_zones shots []) of
        Inl e \<Rightarrow> Inl e
      | Inr sorted_items \<Rightarrow> zone_entries sorted_items)"

section \<open>Shot detector\<close>

text \<open>
  \<^verbatim>\<open>np.argmin\<close> of a list: the index of the first occurrence of the least element; an
  empty list raises.
\<close>

fun argmin_loop :: "real list \<Rightarrow> nat \<Rightarrow> nat \<Rightarrow> real \<Rightarrow> nat" where
  "argmin_loop [] i best_i best = best_i"
| "argmin_loop (v # vs) i best_i best =
     (if v < best then argmin_loop vs (i + 1) i v else argmin_loop vs (i + 1) best_i best)"

definition argmin :: "real list \<Rightarrow> py_error + nat" where
  "argmin vs = (case vs of [] \<Rightarrow> Inl ValueError | v # rest \<Rightarrow> Inr (argmin_loop rest 1 0 v))"

text \<open>The \<^verbatim>\<open>all(...)\<close> over the first five samples in \<^verbatim>\<open>_analyze_trajectory\<close>.\<close>

definition upward_motion :: "sample list \<Rightarrow> bool" where
  "upward_motion window =
     (let y_values = map s_y (take 5 window)
      in list_all (\<lambda>i. y_values ! i > y_values ! (i + 1)) [0..<min 3 (length y_values - 1)])"

text \<open>
  \<^verbatim>\<open>_analyze_trajectory\<close>. The first and the last sample are read only after the length
  check. The quotients by the frame size and the differences from 0.5 are rounded; the
  thresholds are the doubles of the literals. The random source is used, and advanced, only
  by the last \<^verbatim>\<open>return\<close>.
\<close>

definition analyze_trajectory :: "sample list \<Rightarrow> rng \<Rightarrow> py_error + ((bool \<times> string) \<times> rng)" where
  "analyze_trajectory window g =
     (if length window < 5 then Inr ((False, ''unknown''), g)
      else if \<not> upward_motion window then Inr ((False, ''unknown''), g)
      else
        (let start_x = fdiv (s_x (hd window)) 1920;
             end_x = fdiv (s_x (last window)) 1920;
             moves_toward_hoop =
               (\<bar>fsub end_x 0.5\<bar> < \<bar>fsub start_x 0.5\<bar> \<or> \<bar>fsub end_x 0.5\<bar> < rd 0.2)
         in if \<not> moves_toward_hoop then Inr ((False, ''unknown''), g)
            else
              (let final_y = fdiv (s_y (last window)) 1080
               in case (if final_y < rd 0.15 \<and> \<bar>fsub end_x 0.5\<bar> < rd 0.1
                        then (case argmin (map s_y window) of
                                Inl e \<Rightarrow> Inl e
                              | Inr peak_idx \<Rightarrow> Inr (int peak_idx < int (length window) - 2))
                        else Inr False) of
                    Inl e \<Rightarrow> Inl e
                  | Inr True \<Rightarrow> Inr ((True, ''make''), g)
                  | Inr False \<Rightarrow>
                      if final_y > rd 0.2 \<or> \<bar>fsub end_x 0.5\<bar> > rd 0.15
                      then Inr ((True, ''miss''), g)
                      else (case random g of
                              (r, g') \<Rightarrow>
                                Inr ((True, if r > rd 0.45 then ''make'' else ''miss''), g')))))"

text \<open>\<^verbatim>\<open>_calculate_shot_confidence\<close>; \<^verbatim>\<open>window[-1]\<close> raises on an empty window.\<close>

definition calculate_shot_confidence :: "sample list \<Rightarrow> string \<Rightarrow> py_error + real" where
  "calculate_shot_confidence window oc =
     (let base_confidence = rd 0.7;
          point_bonus = min (fdiv (real (length window)) 15) (rd 0.15)
      in if window = [] then Inl IndexError
         else
           (let final_x = fdiv (s_x (last window)) 1920;
                distance_to_hoop = \<bar>fsub final_x 0.5\<bar>;
                proximity_bonus = max 0 (fsub (rd 0.15) distance_to_hoop)
            in Inr (min (fadd (fadd base_confidence point_bonus) proximity_bonus) (rd 0.98))))"

text \<open>The \<^verbatim>\<open>ShotEvent(...)\<close> built in the loop of \<^verbatim>\<open>_detect_shots\<close>.\<close>

definition window_shot :: "int \<Rightarrow> sample list \<Rightarrow> string \<Rightarrow> string \<Rightarrow> real \<Rightarrow> ShotEvent" where
  "window_shot sid window oc z c =
     \<lparr>shot_id = sid,
      frame_start = s_frame (hd window),
      frame_end = s_frame (last window),
      release_x = fmul (fdiv (s_x (hd window)) 1920) 100,
      release_y = fmul (fdiv (s_y (hd window)) 1080) 100,
      outcome = oc,
      zone = z,
      confidence = c,
      timestamp = s_timestamp (hd window),
      trajectory = map (\<lambda>p. (s_x p, s_y p)) window\<rparr>"

text \<open>
  The \<^verbatim>\<open>while\<close> loop of \<^verbatim>\<open>_detect_shots\<close>, with its variables \<open>i\<close>, \<open>shot_id\<close> and
  \<open>shots\<close>. The \<^verbatim>\<open>await asyncio.sleep(0)\<close> of the loop changes no variable.
\<close>

function scan :: "sample list \<Rightarrow> nat \<Rightarrow> int \<Rightarrow> ShotEvent list \<Rightarrow> rng \<Rightarrow> py_error + (ShotEvent list \<times> rng)" where
  "scan ball_track i sid shots g =
     (if int i < int (length ball_track) - 5
      then
        (let window = take 15 (drop i ball_track)
         in if length window \<ge> 5
            then
              (case analyze_trajectory window g of
                 Inl e \<Rightarrow> Inl e
               | Inr ((is_shot, oc), g') \<Rightarrow>
                   if is_shot
                   then
                     (let z = get_zone (s_x (hd window)) (s_y (hd window))
                      in case calculate_shot_confidence window oc of
                           Inl e \<Rightarrow> Inl e
                         | Inr c \<Rightarrow>
                             scan ball_track (i + length window) (sid + 1)
                               (shots @ [window_shot sid window oc z c]) g')
                   else scan ball_track (i + 1) sid shots g')
            else scan ball_track (i + 1) sid shots g)
      else Inr (shots, g))"
  by pat_completeness auto
termination
  by (relation "measure (\<lambda>(ball_track, i, sid, shots, g). length ball_track - i)") auto

text \<open>
  \<^verbatim>\<open>_generate_mock_shots\<close>. Each round of the loop draws, in this order: the zone, the two
  offsets of the position, the outcome, the confidence.
\<close>

definition mock_zones :: "string list" where
  "mock_zones = [''right-wing'', ''left-wing'', ''top-key'', ''paint'', ''left-corner'',
                 ''right-corner'', ''mid-range'']"

definition zone_weights :: "real list" where
  "zone_weights = [rd 0.2, rd 0.2, rd 0.15, rd 0.15, rd 0.1, rd 0.1, rd 0.1]"

definition make_probs :: "(string \<times> real) list" where
  "make_probs =
     [(''paint'', rd 0.55), (''right-wing'', rd 0.45), (''left-wing'', rd 0.42),
      (''top-key'', rd 0.40), (''mid-range'', rd 0.38), (''left-corner'', rd 0.35),
      (''right-corner'', rd 0.35)]"

text \<open>\<^verbatim>\<open>x, y = cx + uniform(-dx, dx), cy + uniform(-dy, dy)\<close>, left to right.\<close>

definition offset_position :: "real \<Rightarrow> real \<Rightarrow> real \<Rightarrow> real \<Rightarrow> rng \<Rightarrow> (real \<times> real) \<times> rng" where
  "offset_position cx dx cy dy g =
     (case uniform (- dx) dx g of
        (a, g1) \<Rightarrow> (case uniform (- dy) dy g1 of (b, g2) \<Rightarrow> ((fadd cx a, fadd cy b), g2)))"

definition mock_position :: "string \<Rightarrow> rng \<Rightarrow> (real \<times> real) \<times> rng" where
  "mock_position z g =
     (if z = ''right-wing'' then offset_position 75 10 40 15 g
      else if z = ''left-wing'' then offset_position 25 10 40 15 g
      else if z = ''top-key'' then offset_position 50 10 55 10 g
      else if z = ''paint'' then offset_position 50 15 20 10 g
      else if z = ''left-corner'' then offset_position 15 5 75 10 g
      else if z = ''right-corner'' then offset_position 85 5 75 10 g
      else offset_position 50 20 35 10 g)"

text \<open>One round of the loop, for the loop index \<open>i\<close>.\<close>

definition mock_shot :: "nat \<Rightarrow> rng \<Rightarrow> py_error + (ShotEvent \<times> rng)" where
  "mock_shot i g =
     (case choice mock_zones zone_weights g of
        (Inl e, g1) \<Rightarrow> Inl e
      | (Inr z, g1) \<Rightarrow>
          (case mock_position z g1 of
             ((x, y), g2) \<Rightarrow>
               (case random g2 of
                  (r, g3) \<Rightarrow>
                    (let oc = (if r < (case map_of make_probs z of Some p \<Rightarrow> p | None \<Rightarrow> rd 0.4)
                               then ''make'' else ''miss'')
                     in case uniform 0 (rd 0.1) g3 of
                          (c, g4) \<Rightarrow>
                            Inr (\<lparr>shot_id = int i + 1,
                                  frame_start = int i * 150,
                                  frame_end = int i * 150 + 30,
                                  release_x = x,
                                  release_y = y,
                                  outcome = oc,
                                  zone = z,
                                  confidence = fadd (rd 0.85) c,
                                  timestamp = real i * 5,
                                  trajectory = []\<rparr>, g4)))))"

fun mock_loop :: "nat list \<Rightarrow> ShotEvent list \<Rightarrow> rng \<Rightarrow> py_error + (ShotEvent list \<times> rng)" where
  "mock_loop [] shots g = Inr (shots, g)"
| "mock_loop (i # rest) shots g =
     (case mock_shot i g of
        Inl e \<Rightarrow> Inl e
      | Inr (shot, g') \<Rightarrow> mock_loop rest (shots @ [shot]) g')"

definition generate_mock_shots :: "rng \<Rightarrow> py_error + (ShotEvent list \<times> rng)" where
  "generate_mock_shots g = mock_loop [0..<20] [] g"

text \<open>
  The dictionary returned by \<^verbatim>\<open>track_objects\<close>: the player tracks by id, in the order the
  ids were allocated, and the ball stream.
\<close>

record tracks =
  players :: "(nat \<times> sample list) list"
  ball :: "sample list"

text \<open>
  \<^verbatim>\<open>_detect_shots\<close>. \<^verbatim>\<open>tracks.get("ball", [])\<close> is the field \<open>ball\<close>: a dictionary without
  the key is a record with an empty ball stream.
\<close>

definition detect_shots :: "tracks \<Rightarrow> rng \<Rightarrow> py_error + (ShotEvent list \<times> rng)" where
  "detect_shots trks g =
     (let ball_track = ball trks
      in if length ball_track < 10 then generate_mock_shots g
         else
           (case scan ball_track 0 1 [] g of
              Inl e \<Rightarrow> Inl e
            | Inr (shots, g') \<Rightarrow>
                if shots = [] then generate_mock_shots g' else Inr (shots, g')))"

section \<open>Object tracker\<close>














section \<open>Notions used to state the results\<close>

text \<open>
  The values the two key functions return when they do not raise, and the entry the second
  loop of \<^verbatim>\<open>_calculate_zone_stats\<close> builds.
\<close>

definition hot_score :: "string \<times> zone_counts \<Rightarrow> real" where
  "hot_score x = (if zc_attempts (snd x) > 2
                  then fdiv (real_of_int (zc_makes (snd x))) (real_of_int (zc_attempts (snd x)))
                  else 0)"

definition rate_score :: "string \<times> zone_counts \<Rightarrow> real" where
  "rate_score x = (if zc_attempts (snd x) > 0
                   then fdiv (real_of_int (zc_makes (snd x))) (real_of_int (zc_attempts (snd x)))
                   else 0)"

definition entry_of :: "string \<times> zone_counts \<Rightarrow> ZoneStats" where
  "entry_of x =
     \<lparr>name = display_name (fst x), attempts = zc_attempts (snd x), zone_makes = zc_makes (snd x),
      percentage =
        (if zc_attempts (snd x) > 0
         then py_round (fmul (fdiv (real_of_int (zc_makes (snd x)))
                                   (real_of_int (zc_attempts (snd x)))) 100) 1
         else 0)\<rparr>"

text \<open>What the per-zone loop maintains for every zone it has seen.\<close>

definition counts_ok :: "zone_counts \<Rightarrow> bool" where
  "counts_ok c = (0 \<le> zc_makes c \<and> zc_makes c \<le> zc_attempts c \<and> 1 \<le> zc_attempts c)"

text \<open>A shot event with a given zone and outcome, for concrete inputs.\<close>

definition mk_shot :: "string \<Rightarrow> string \<Rightarrow> ShotEvent" where
  "mk_shot z oc = \<lparr>shot_id = 1, frame_start = 0, frame_end = 30, release_x = 50, release_y = 20,
      outcome = oc, zone = z, confidence = rd 0.9, timestamp = 0, trajectory = []\<rparr>"

text \<open>Made and missed shots in the paint, for concrete inputs.\<close>

definition paint_shots :: "nat \<Rightarrow> nat \<Rightarrow> ShotEvent list" where
  "paint_shots m n = replicate m (mk_shot ''paint'' ''make'') @ replicate n (mk_shot ''paint'' ''miss'')"

text \<open>
  The parts of \<^verbatim>\<open>_analyze_trajectory\<close> by name: the index \<^verbatim>\<open>np.argmin\<close> returns on a
  window that is not empty, the value of \<^verbatim>\<open>abs(x / 1920 - 0.5)\<close>, the two tests a shot
  attempt passes, the test of the first \<^verbatim>\<open>return\<close> of an outcome, the test of the second,
  and the outcome with the state of the random source after it. \<open>shot_conf\<close> is the value of
  \<^verbatim>\<open>_calculate_shot_confidence\<close> on a window that is not empty.
\<close>

definition peak_index :: "sample list \<Rightarrow> nat" where
  "peak_index w = (case map s_y w of [] \<Rightarrow> 0 | v # rest \<Rightarrow> argmin_loop rest 1 0 v)"

definition hoop_offset :: "real \<Rightarrow> real" where
  "hoop_offset x = \<bar>fsub (fdiv x 1920) 0.5\<bar>"

definition shot_attempt :: "sample list \<Rightarrow> bool" where
  "shot_attempt w =
     (5 \<le> length w \<and> upward_motion w
      \<and> (hoop_offset (s_x (last w)) < hoop_offset (s_x (hd w))
           \<or> hoop_offset (s_x (last w)) < rd 0.2))"

definition clear_make :: "sample list \<Rightarrow> bool" where
  "clear_make w =
     (fdiv (s_y (last w)) 1080 < rd 0.15 \<and> hoop_offset (s_x (last w)) < rd 0.1
      \<and> int (peak_index w) < int (length w) - 2)"

definition clear_miss :: "sample list \<Rightarrow> bool" where
  "clear_miss w = (fdiv (s_y (last w)) 1080 > rd 0.2 \<or> hoop_offset (s_x (last w)) > rd 0.15)"

definition classify :: "sample list \<Rightarrow> rng \<Rightarrow> string \<times> rng" where
  "classify w g =
     (if clear_make w then (''make'', g)
      else if clear_miss w then (''miss'', g)
      else (if draws g (pos g) > rd 0.45 then ''make'' else ''miss'', g\<lparr>pos := pos g + 1\<rparr>))"

definition shot_conf :: "sample list \<Rightarrow> real" where
  "shot_conf w =
     min (fadd (fadd (rd 0.7) (min (fdiv (real (length w)) 15) (rd 0.15)))
               (max 0 (fsub (rd 0.15) (hoop_offset (s_x (last w))))))
         (rd 0.98)"

text \<open>Ball samples for concrete inputs, and a rising ball that comes down at the hoop.\<close>

definition ball_at :: "int \<Rightarrow> real \<Rightarrow> real \<Rightarrow> sample" where
  "ball_at f cx cy =
     \<lparr>s_frame = f, s_timestamp = fdiv (real_of_int f) 30, s_x = cx, s_y = cy,
      s_bbox = \<lparr>x1 = fsub cx 15, y1 = fsub cy 15, x2 = fadd cx 15, y2 = fadd cy 15,
                center_x = cx, center_y = cy\<rparr>\<rparr>"

definition rising_shot :: "sample list" where
  "rising_shot =
     [ball_at 0 960 500, ball_at 1 960 400, ball_at 2 960 300, ball_at 3 960 200,
      ball_at 4 960 50, ball_at 5 960 80, ball_at 6 960 108]"

text \<open>
  A rising ball that ends between the two outcome tests, and a random source whose every draw
  is one half.
\<close>

definition hanging_shot :: "sample list" where
  "hanging_shot =
     [ball_at 0 960 500, ball_at 1 960 400, ball_at 2 960 300, ball_at 3 960 200,
      ball_at 4 960 50, ball_at 5 960 80, ball_at 6 960 189]"

definition half_draws :: rng where
  "half_draws = \<lparr>draws = (\<lambda>n. 1 / 2), pos = 0\<rparr>"

text \<open>
  A ball that rises under the hoop, peaks at its fifth sample and is last seen at the
  horizontal position \<open>cx\<close>, at the height 100: ten samples. The positions 1152, 1248 and 1344
  are a tenth, 15 hundredths and a fifth of the frame width away from the centre 960; the
  doubles the code computes for them lie just below 0.1, just above 0.15 and just below 0.2.
\<close>

definition edge_window :: "real \<Rightarrow> sample list" where
  "edge_window cx =
     [ball_at 0 960 500, ball_at 1 960 400, ball_at 2 960 300, ball_at 3 960 200,
      ball_at 4 960 50, ball_at 5 960 80, ball_at 6 960 90, ball_at 7 960 95,
      ball_at 8 960 98, ball_at 9 cx 100]"

text \<open>The shape of a shot of the synthetic set.\<close>

definition mock_ok :: "ShotEvent \<Rightarrow> bool" where
  "mock_ok s = (trajectory s = [] \<and> (outcome s = ''make'' \<or> outcome s = ''miss'')
                \<and> rd 0.85 \<le> confidence s \<and> confidence s \<le> rd 0.95)"

text \<open>
  Tracks for concrete inputs: a ball that does not move, the rising ball followed by
  three samples at rest, and the ball last seen at \<open>cx\<close>.
\<close>

definition flat_track :: "nat \<Rightarrow> tracks" where
  "flat_track n = \<lparr>players = [], ball = replicate n (ball_at 0 960 500)\<rparr>"

definition rising_track :: tracks where
  "rising_track =
     \<lparr>players = [],
      ball = rising_shot @ [ball_at 7 960 108, ball_at 8 960 108, ball_at 9 960 108]\<rparr>"

definition edge_track :: "real \<Rightarrow> tracks" where
  "edge_track cx = \<lparr>players = [], ball = edge_window cx\<rparr>"




section \<open>Floating-point arithmetic: results\<close>

lemma rhe_of_int: "round_half_even (of_int n) = n"
  by (simp add: round_half_even_def)

lemma rhe_bounds: "\<lfloor>x\<rfloor> \<le> round_half_even x" "round_half_even x \<le> \<lfloor>x\<rfloor> + 1"
  by (simp_all add: round_half_even_def Let_def)

lemma rhe_mono: "x \<le> y \<Longrightarrow> round_half_even x \<le> round_half_even y"
proof -
  assume le: "x \<le> y"
  then have f: "\<lfloor>x\<rfloor> \<le> \<lfloor>y\<rfloor>" by (rule floor_mono)
  show ?thesis
  proof (cases "\<lfloor>x\<rfloor> = \<lfloor>y\<rfloor>")
    case True
    then show ?thesis using le by (auto simp: round_half_even_def Let_def)
  next
    case False
    with f have "\<lfloor>x\<rfloor> + 1 \<le> \<lfloor>y\<rfloor>" by simp
    with rhe_bounds(2)[of x] rhe_bounds(1)[of y] show ?thesis by linarith
  qed
qed

lemma rhe_minus: "round_half_even (- x) = - round_half_even x"
proof (cases "x \<in> \<int>")
  case True
  then obtain n where "x = of_int n" by (auto elim: Ints_cases)
  then have "- x = of_int (- n)" by simp
  then show ?thesis unfolding \<open>x = of_int n\<close> by (simp only: rhe_of_int)
next
  case False
  have ne: "x \<noteq> of_int \<lfloor>x\<rfloor>" using False by (metis Ints_of_int)
  then have fl: "\<lfloor>- x\<rfloor> = - \<lfloor>x\<rfloor> - 1"
    by (simp add: floor_minus ceiling_altdef)
  have "of_int \<lfloor>x\<rfloor> \<le> x" by (rule of_int_floor_le)
  with ne have d: "0 < x - of_int \<lfloor>x\<rfloor>" by linarith
  show ?thesis
    unfolding round_half_even_def Let_def fl using d by (auto simp: field_simps)
qed

lemma expo_bounds:
  assumes "x \<noteq> 0"
  shows "2 powi expo x \<le> \<bar>x\<bar>" "\<bar>x\<bar> < 2 powi (expo x + 1)"
proof -
  have "2 powi expo x \<le> \<bar>x\<bar> \<and> \<bar>x\<bar> < 2 powi (expo x + 1)"
  proof (cases "1 \<le> \<bar>x\<bar>")
    case True
    define m where "m = \<lfloor>\<bar>x\<bar>\<rfloor>"
    have m: "0 < m" unfolding m_def using True by simp
    have e: "expo x = bitlen m - 1" using True by (simp add: expo_def m_def)
    have b1: "1 \<le> bitlen m" using m by (simp add: bitlen_alt_def)
    from bitlen_bounds[OF m] have lo: "2 ^ nat (bitlen m - 1) \<le> m" and hi: "m < 2 ^ nat (bitlen m)"
      by simp_all
    have p1: "(2::real) powi (bitlen m - 1) = 2 ^ nat (bitlen m - 1)"
      using b1 by (simp add: power_int_def)
    have p2: "(2::real) powi (bitlen m - 1 + 1) = 2 ^ nat (bitlen m)"
      using b1 by (simp add: power_int_def)
    have "real_of_int m \<le> \<bar>x\<bar>" unfolding m_def by simp
    moreover have "real_of_int (2 ^ nat (bitlen m - 1)) \<le> real_of_int m" using lo by (simp only: of_int_le_iff)
    then have "(2::real) ^ nat (bitlen m - 1) \<le> real_of_int m" by simp
    ultimately have A: "2 powi expo x \<le> \<bar>x\<bar>" unfolding e p1 by linarith
    have "m + 1 \<le> 2 ^ nat (bitlen m)" using hi by simp
    then have "real_of_int (m + 1) \<le> real_of_int (2 ^ nat (bitlen m))" by (simp only: of_int_le_iff)
    then have "real_of_int (m + 1) \<le> (2::real) ^ nat (bitlen m)" by simp
    moreover have "\<bar>x\<bar> < real_of_int (m + 1)" unfolding m_def by linarith
    ultimately have B: "\<bar>x\<bar> < 2 powi (expo x + 1)" unfolding e p2 by linarith
    from A B show ?thesis ..
  next
    case False
    define y where "y = 1 / \<bar>x\<bar>"
    define m where "m = \<lceil>y\<rceil> - 1"
    have ax: "0 < \<bar>x\<bar>" "\<bar>x\<bar> < 1" using assms False by simp_all
    then have y1: "1 < y" unfolding y_def by simp
    then have m: "0 < m" unfolding m_def by linarith
    have e: "expo x = - bitlen m" using False by (simp add: expo_def m_def y_def)
    have b1: "1 \<le> bitlen m" using m by (simp add: bitlen_alt_def)
    from bitlen_bounds[OF m] have lo: "2 ^ nat (bitlen m - 1) \<le> m" and hi: "m < 2 ^ nat (bitlen m)"
      by simp_all
    have "real_of_int m < y" unfolding m_def by linarith
    moreover have "real_of_int (2 ^ nat (bitlen m - 1)) \<le> real_of_int m" using lo by (simp only: of_int_le_iff)
    then have "(2::real) ^ nat (bitlen m - 1) \<le> real_of_int m" by simp
    ultimately have l: "2 ^ nat (bitlen m - 1) < y" by linarith
    have "m + 1 \<le> 2 ^ nat (bitlen m)" using hi by simp
    then have "real_of_int (m + 1) \<le> real_of_int (2 ^ nat (bitlen m))" by (simp only: of_int_le_iff)
    then have "real_of_int (m + 1) \<le> (2::real) ^ nat (bitlen m)" by simp
    moreover have "y \<le> real_of_int (m + 1)" unfolding m_def by simp
    ultimately have h: "y \<le> 2 ^ nat (bitlen m)" by linarith
    have p1: "(2::real) powi (- bitlen m) = 1 / 2 ^ nat (bitlen m)"
      using b1 by (simp add: power_int_def field_simps)
    have p2: "(2::real) powi (- bitlen m + 1) = 1 / 2 ^ nat (bitlen m - 1)"
      using b1 by (simp add: power_int_def field_simps)
    have A: "2 powi expo x \<le> \<bar>x\<bar>"
      unfolding e p1 using h ax(1) unfolding y_def by (simp add: field_simps)
    have B: "\<bar>x\<bar> < 2 powi (expo x + 1)"
      unfolding e p2 using l ax(1) unfolding y_def by (simp add: field_simps)
    from A B show ?thesis ..
  qed
  then show "2 powi expo x \<le> \<bar>x\<bar>" "\<bar>x\<bar> < 2 powi (expo x + 1)" by simp_all
qed

lemma powi_less_cancel: "(2::real) powi a < 2 powi b \<Longrightarrow> a < b"
  by (rule ccontr) (simp add: not_less power_int_increasing not_le[symmetric])

lemma expo_unique:
  assumes "2 powi e \<le> \<bar>x\<bar>" "\<bar>x\<bar> < 2 powi (e + 1)"
  shows "expo x = e"
proof -
  have "0 < (2::real) powi e" by simp
  with assms(1) have "0 < \<bar>x\<bar>" by linarith
  then have nz: "x \<noteq> 0" by simp
  note b = expo_bounds[OF nz]
  have "(2::real) powi e < 2 powi (expo x + 1)" using assms(1) b(2) by simp
  then have 1: "e < expo x + 1" by (rule powi_less_cancel)
  have "(2::real) powi expo x < 2 powi (e + 1)" using assms(2) b(1) by simp
  then have 2: "expo x < e + 1" by (rule powi_less_cancel)
  from 1 2 show ?thesis by simp
qed

lemma rd_eval:
  assumes "2 powi e \<le> \<bar>x\<bar>" "\<bar>x\<bar> < 2 powi (e + 1)"
  shows "rd x = real_of_int (round_half_even (x / 2 powi (max e (- 1022) - 52))) * 2 powi (max e (- 1022) - 52)"
  unfolding rd_def Let_def expo_unique[OF assms] ..

lemma rd_0: "rd 0 = 0"
  by (simp add: rd_def round_half_even_def)

lemma expo_minus: "expo (- x) = expo x"
  by (simp add: expo_def)

lemma rd_minus: "rd (- x) = - rd x"
  by (simp add: rd_def Let_def expo_minus rhe_minus)

lemma rhe_nonneg: "0 \<le> x \<Longrightarrow> 0 \<le> round_half_even x"
  using rhe_mono[of 0 x] rhe_of_int[of 0] by simp

lemma rd_nonneg: "0 \<le> x \<Longrightarrow> 0 \<le> rd x"
  by (simp add: rd_def Let_def rhe_nonneg)

lemma expo_mono_pos:
  assumes "0 < x" "x \<le> y"
  shows "expo x \<le> expo y"
proof -
  have nz: "x \<noteq> 0" "y \<noteq> 0" using assms by auto
  have "2 powi expo x \<le> \<bar>x\<bar>" by (rule expo_bounds(1)[OF nz(1)])
  also have "\<bar>x\<bar> \<le> \<bar>y\<bar>" using assms by simp
  also have "\<bar>y\<bar> < 2 powi (expo y + 1)" by (rule expo_bounds(2)[OF nz(2)])
  finally have "expo x < expo y + 1" by (rule powi_less_cancel)
  then show ?thesis by simp
qed

lemma powi_nat: "0 \<le> k \<Longrightarrow> (2::real) powi k = real_of_int (2 ^ nat k)"
  by (simp add: power_int_def)

lemma rd_mono_pos:
  assumes "0 < x" "x \<le> y"
  shows "rd x \<le> rd y"
proof -
  define qx where "qx = max (expo x) (- 1022) - 52"
  define qy where "qy = max (expo y) (- 1022) - 52"
  have e: "expo x \<le> expo y" using assms by (rule expo_mono_pos)
  then have q: "qx \<le> qy" unfolding qx_def qy_def by simp
  have rx: "rd x = real_of_int (round_half_even (x / 2 powi qx)) * 2 powi qx"
    unfolding rd_def Let_def qx_def ..
  have ry: "rd y = real_of_int (round_half_even (y / 2 powi qy)) * 2 powi qy"
    unfolding rd_def Let_def qy_def ..
  have ypos: "0 < y" using assms by simp
  show ?thesis
  proof (cases "qx = qy")
    case True
    have "x / 2 powi qy \<le> y / 2 powi qy" using assms(2) by (simp add: divide_right_mono)
    then have "round_half_even (x / 2 powi qy) \<le> round_half_even (y / 2 powi qy)" by (rule rhe_mono)
    then have "real_of_int (round_half_even (x / 2 powi qy)) \<le> real_of_int (round_half_even (y / 2 powi qy))"
      by (simp only: of_int_le_iff)
    then show ?thesis unfolding rx ry True by (simp add: mult_right_mono)
  next
    case False
    with q have lt: "qx < qy" by simp
    then have ey: "qy = expo y - 52" and exy: "expo x < expo y" and qxe: "qx < expo y"
      unfolding qx_def qy_def by auto
    have nz: "x \<noteq> 0" "y \<noteq> 0" using assms by auto
    have "x < 2 powi (expo x + 1)" using expo_bounds(2)[OF nz(1)] assms(1) by simp
    also have "(2::real) powi (expo x + 1) \<le> 2 powi expo y"
      using exy by (intro power_int_increasing) simp_all
    finally have xle: "x \<le> 2 powi expo y" by simp
    have yge: "2 powi expo y \<le> y" using expo_bounds(1)[OF nz(2)] ypos by simp
    define n where "n = expo y - qx"
    have n: "0 \<le> n" using qxe by (simp add: n_def)
    have "(2::real) powi expo y / 2 powi qx = 2 powi n"
      unfolding n_def by (simp add: power_int_diff)
    also have "\<dots> = real_of_int (2 ^ nat n)" using n by (rule powi_nat)
    finally have pn: "(2::real) powi expo y / 2 powi qx = real_of_int (2 ^ nat n)" .
    have "x / 2 powi qx \<le> 2 powi expo y / 2 powi qx" using xle by (simp add: divide_right_mono)
    then have "x / 2 powi qx \<le> real_of_int (2 ^ nat n)" unfolding pn .
    then have "round_half_even (x / 2 powi qx) \<le> round_half_even (real_of_int (2 ^ nat n))"
      by (rule rhe_mono)
    then have "round_half_even (x / 2 powi qx) \<le> 2 ^ nat n" unfolding rhe_of_int .
    then have "real_of_int (round_half_even (x / 2 powi qx)) \<le> real_of_int (2 ^ nat n)"
      by (simp only: of_int_le_iff)
    then have "rd x \<le> real_of_int (2 ^ nat n) * 2 powi qx"
      unfolding rx by (simp add: mult_right_mono)
    also have "\<dots> = 2 powi expo y" unfolding pn[symmetric] by simp
    finally have A: "rd x \<le> 2 powi expo y" .
    have p52: "(2::real) powi expo y / 2 powi qy = real_of_int (2 ^ 52)"
      unfolding ey by (simp add: power_int_diff)
    have "2 powi expo y / 2 powi qy \<le> y / 2 powi qy" using yge by (simp add: divide_right_mono)
    then have "real_of_int (2 ^ 52) \<le> y / 2 powi qy" unfolding p52 .
    then have "round_half_even (real_of_int (2 ^ 52)) \<le> round_half_even (y / 2 powi qy)"
      by (rule rhe_mono)
    then have "2 ^ 52 \<le> round_half_even (y / 2 powi qy)" unfolding rhe_of_int .
    then have "real_of_int (2 ^ 52) \<le> real_of_int (round_half_even (y / 2 powi qy))"
      by (simp only: of_int_le_iff)
    then have "real_of_int (2 ^ 52) * 2 powi qy \<le> rd y"
      unfolding ry by (simp add: mult_right_mono)
    moreover have "real_of_int (2 ^ 52) * 2 powi qy = 2 powi expo y" unfolding p52[symmetric] by simp
    ultimately have B: "2 powi expo y \<le> rd y" by simp
    from A B show ?thesis by simp
  qed
qed

lemma rd_mono: "x \<le> y \<Longrightarrow> rd x \<le> rd y"
proof -
  assume le: "x \<le> y"
  consider "0 < x" | "x \<le> 0" "0 \<le> y" | "y < 0" by linarith
  then show ?thesis
  proof cases
    case 1
    then show ?thesis using le by (rule rd_mono_pos)
  next
    case 2
    have "0 \<le> rd (- x)" using 2(1) by (intro rd_nonneg) simp
    then have "rd x \<le> 0" by (simp add: rd_minus)
    moreover have "0 \<le> rd y" using 2(2) by (rule rd_nonneg)
    ultimately show ?thesis by simp
  next
    case 3
    have "rd (- y) \<le> rd (- x)" using 3 le by (intro rd_mono_pos) simp_all
    then show ?thesis by (simp add: rd_minus)
  qed
qed

subsection \<open>Values\<close>

lemma rd_02: "rd (1 / 5) = 3602879701896397 / 18014398509481984"
  by (subst rd_eval[where e = "-3"]) (simp_all add: round_half_even_def)

lemma rd_01: "rd (1 / 10) = 3602879701896397 / 36028797018963968"
  by (subst rd_eval[where e = "-4"]) (simp_all add: round_half_even_def)

lemma rd_015: "rd (3 / 20) = 5404319552844595 / 36028797018963968"
  by (subst rd_eval[where e = "-3"]) (simp_all add: round_half_even_def)

lemma rd_045: "rd (9 / 20) = 8106479329266893 / 18014398509481984"
  by (subst rd_eval[where e = "-2"]) (simp_all add: round_half_even_def)

lemma rd_085: "rd (17 / 20) = 7656119366529843 / 9007199254740992"
  by (subst rd_eval[where e = "-1"]) (simp_all add: round_half_even_def)

lemma rd_095: "rd (19 / 20) = 4278419646001971 / 4503599627370496"
  by (subst rd_eval[where e = "-1"]) (simp_all add: round_half_even_def)

lemma hoop_offset_960:
  "hoop_offset 960 = 0"
proof -
  have h0: "fdiv 960 1920 = 1 / 2"
    unfolding fdiv_def by (subst rd_eval[where e = "-1"]) (simp_all add: round_half_even_def)
  have h1: "fsub (1 / 2) (1 / 2) = 0"
    unfolding fsub_def by (simp add: rd_0)
  show ?thesis
    by (simp add: hoop_offset_def h0 h1)
qed

lemma hoop_offset_1152:
  "hoop_offset 1152 = 900719925474099 / 9007199254740992"
proof -
  have h0: "fdiv 1152 1920 = 5404319552844595 / 9007199254740992"
    unfolding fdiv_def by (subst rd_eval[where e = "-1"]) (simp_all add: round_half_even_def)
  have h1: "fsub (5404319552844595 / 9007199254740992) (1 / 2) = 900719925474099 / 9007199254740992"
    unfolding fsub_def by (subst rd_eval[where e = "-4"]) (simp_all add: round_half_even_def)
  show ?thesis
    by (simp add: hoop_offset_def h0 h1)
qed

lemma hoop_offset_1248:
  "hoop_offset 1248 = 1351079888211149 / 9007199254740992"
proof -
  have h0: "fdiv 1248 1920 = 5854679515581645 / 9007199254740992"
    unfolding fdiv_def by (subst rd_eval[where e = "-1"]) (simp_all add: round_half_even_def)
  have h1: "fsub (5854679515581645 / 9007199254740992) (1 / 2) = 1351079888211149 / 9007199254740992"
    unfolding fsub_def by (subst rd_eval[where e = "-3"]) (simp_all add: round_half_even_def)
  show ?thesis
    by (simp add: hoop_offset_def h0 h1)
qed

lemma hoop_offset_1344:
  "hoop_offset 1344 = 900719925474099 / 4503599627370496"
proof -
  have h0: "fdiv 1344 1920 = 3152519739159347 / 4503599627370496"
    unfolding fdiv_def by (subst rd_eval[where e = "-1"]) (simp_all add: round_half_even_def)
  have h1: "fsub (3152519739159347 / 4503599627370496) (1 / 2) = 900719925474099 / 4503599627370496"
    unfolding fsub_def by (subst rd_eval[where e = "-3"]) (simp_all add: round_half_even_def)
  show ?thesis
    by (simp add: hoop_offset_def h0 h1)
qed

lemma fdiv_100_1080: "fdiv 100 1080 = 3335999723978145 / 36028797018963968"
  unfolding fdiv_def by (subst rd_eval[where e = "-4"]) (simp_all add: round_half_even_def)

lemma fdiv_189_1080: "fdiv 189 1080 = 3152519739159347 / 18014398509481984"
  unfolding fdiv_def by (subst rd_eval[where e = "-3"]) (simp_all add: round_half_even_def)

section \<open>Zone classifier: results\<close>

lemma get_zone_loop_find:
  "get_zone_loop zs nx ny =
     (case find (\<lambda>z. in_bounds (snd z) nx ny) zs of
        Some z \<Rightarrow> fst z | None \<Rightarrow> ''mid-range'')"
  by (induction zs nx ny rule: get_zone_loop.induct) simp_all

lemma rd_035: "rd (7 / 20) = 3152519739159347 / 9007199254740992"
  by (subst rd_eval[where e = "-2"]) (simp_all add: round_half_even_def)

lemma rd_065: "rd (13 / 20) = 5854679515581645 / 9007199254740992"
  by (subst rd_eval[where e = "-1"]) (simp_all add: round_half_even_def)

lemma rd_025: "rd (1 / 4) = 1 / 4"
  by (subst rd_eval[where e = "-2"]) (simp_all add: round_half_even_def)

lemma rd_06: "rd (3 / 5) = 5404319552844595 / 9007199254740992"
  by (subst rd_eval[where e = "-1"]) (simp_all add: round_half_even_def)

lemma rd_075: "rd (3 / 4) = 3 / 4"
  by (subst rd_eval[where e = "-1"]) (simp_all add: round_half_even_def)

lemma rd_04: "rd (2 / 5) = 3602879701896397 / 9007199254740992"
  by (subst rd_eval[where e = "-2"]) (simp_all add: round_half_even_def)

lemma rd_07: "rd (7 / 10) = 3152519739159347 / 4503599627370496"
  by (subst rd_eval[where e = "-1"]) (simp_all add: round_half_even_def)

lemma rd_09: "rd (9 / 10) = 8106479329266893 / 9007199254740992"
  by (subst rd_eval[where e = "-1"]) (simp_all add: round_half_even_def)

lemma rd_10: "rd 1 = 1"
  by (subst rd_eval[where e = "0"]) (simp_all add: round_half_even_def)

lemma fdiv_108_1080: "fdiv 108 1080 = 3602879701896397 / 36028797018963968"
  unfolding fdiv_def by (subst rd_eval[where e = "-4"]) (simp_all add: round_half_even_def)

lemma fdiv_192_1920: "fdiv 192 1920 = 3602879701896397 / 36028797018963968"
  unfolding fdiv_def by (subst rd_eval[where e = "-4"]) (simp_all add: round_half_even_def)

lemma fdiv_864_1080: "fdiv 864 1080 = 3602879701896397 / 4503599627370496"
  unfolding fdiv_def by (subst rd_eval[where e = "-1"]) (simp_all add: round_half_even_def)

lemma fdiv_972_1080: "fdiv 972 1080 = 8106479329266893 / 9007199254740992"
  unfolding fdiv_def by (subst rd_eval[where e = "-1"]) (simp_all add: round_half_even_def)

lemma fdiv_500_1080: "fdiv 500 1080 = 8339999309945363 / 18014398509481984"
  unfolding fdiv_def by (subst rd_eval[where e = "-2"]) (simp_all add: round_half_even_def)

lemma fdiv_960_1920: "fdiv 960 1920 = 1 / 2"
  unfolding fdiv_def by (subst rd_eval[where e = "-1"]) (simp_all add: round_half_even_def)

lemmas zone_bounds = rd_035 rd_065 rd_025 rd_06 rd_075 rd_04 rd_07 rd_10

lemma fdiv_underflow: "fdiv (- (2 powi (- 1070))) 1920 = 0"
  unfolding fdiv_def by (subst rd_eval[where e = "- 1081"]) (simp_all add: round_half_even_def)

text \<open>
  C5. \<^verbatim>\<open>_get_zone\<close> returns the name of the first entry of the zone table, in the declared
  order paint, left-corner, right-corner, left-wing, right-wing, top-key, mid-range, whose
  rectangle contains the position divided by 1920 and 1080, and mid-range when no rectangle
  contains it. The pixel positions with normalized coordinates (0.5, 0.1), (0.1, 0.8) and
  (0.5, 0.9) classify as paint, left-corner and mid-range; the last one lies in no rectangle.
  The quotients and the bounds are the doubles the code compares; they order a position and
  a bound as the exact quotient and the decimal do, except where a quotient underflows: a
  position \<open>2\<^sup>-\<^sup>1\<^sup>0\<^sup>7\<^sup>0\<close> left of the frame has the quotient zero and lies in the left corner.
\<close>

theorem get_zone_first_match:
  "get_zone x y =
     (case find (\<lambda>z. in_bounds (snd z) (fdiv x 1920) (fdiv y 1080)) zones of
        Some z \<Rightarrow> fst z | None \<Rightarrow> ''mid-range'')
   \<and> map fst zones = [''paint'', ''left-corner'', ''right-corner'', ''left-wing'',
                       ''right-wing'', ''top-key'', ''mid-range'']
   \<and> get_zone (0.5 * 1920) (0.1 * 1080) = ''paint''
   \<and> get_zone (0.1 * 1920) (0.8 * 1080) = ''left-corner''
   \<and> get_zone (0.5 * 1920) (0.9 * 1080) = ''mid-range''
   \<and> find (\<lambda>z. in_bounds (snd z) (rd 0.5) (rd 0.9)) zones = None
   \<and> get_zone (- (2 powi (- 1070))) (0.8 * 1080) = ''left-corner''"
proof -
  have a: "get_zone x y =
     (case find (\<lambda>z. in_bounds (snd z) (fdiv x 1920) (fdiv y 1080)) zones of
        Some z \<Rightarrow> fst z | None \<Rightarrow> ''mid-range'')"
    by (simp add: get_zone_def get_zone_loop_find)
  have b: "map fst zones = [''paint'', ''left-corner'', ''right-corner'', ''left-wing'',
                       ''right-wing'', ''top-key'', ''mid-range'']"
    by (simp add: zones_def)
  have c: "get_zone (0.5 * 1920) (0.1 * 1080) = ''paint''"
    by (simp add: get_zone_def zones_def in_bounds_def zone_bounds fdiv_960_1920 fdiv_108_1080)
  have d: "get_zone (0.1 * 1920) (0.8 * 1080) = ''left-corner''"
    by (simp add: get_zone_def zones_def in_bounds_def zone_bounds fdiv_192_1920 fdiv_864_1080)
  have e: "get_zone (0.5 * 1920) (0.9 * 1080) = ''mid-range''"
    by (simp add: get_zone_def zones_def in_bounds_def zone_bounds fdiv_960_1920 fdiv_972_1080)
  have h: "rd (1 / 2) = 1 / 2"
    by (subst rd_eval[where e = "- 1"]) (simp_all add: round_half_even_def)
  have f: "find (\<lambda>z. in_bounds (snd z) (rd 0.5) (rd 0.9)) zones = None"
    by (simp add: zones_def in_bounds_def zone_bounds rd_09 h)
  have g: "get_zone (- (2 powi (- 1070))) (0.8 * 1080) = ''left-corner''"
    unfolding get_zone_def Let_def fdiv_underflow
    by (simp add: zones_def in_bounds_def zone_bounds fdiv_864_1080)
  from a b c d e f g show ?thesis by (intro conjI)
qed

section \<open>Statistics aggregator: results\<close>

subsection \<open>The per-zone loop\<close>

lemma count_shot_Nil:
  "count_shot shot [] =
     [(zone shot, \<lparr>zc_makes = (if outcome shot = ''make'' then 1 else 0), zc_attempts = 1\<rparr>)]"
  by (simp add: count_shot_def)

lemma count_shot_Cons:
  "count_shot shot ((k, c) # rest) =
     (if k = zone shot
      then (k, c\<lparr>zc_attempts := zc_attempts c + 1,
                 zc_makes := zc_makes c + (if outcome shot = ''make'' then 1 else 0)\<rparr>) # rest
      else (k, c) # count_shot shot rest)"
  by (simp add: count_shot_def Let_def)

lemma count_shot_ok:
  "list_all (\<lambda>x. counts_ok (snd x)) zs \<Longrightarrow> list_all (\<lambda>x. counts_ok (snd x)) (count_shot shot zs)"
  by (induction zs) (auto simp: count_shot_Nil count_shot_Cons counts_ok_def)

lemma count_zones_ok:
  "list_all (\<lambda>x. counts_ok (snd x)) zs \<Longrightarrow> list_all (\<lambda>x. counts_ok (snd x)) (count_zones shots zs)"
  by (induction shots arbitrary: zs) (auto simp: count_shot_ok)

lemma keyed_total:
  "(\<And>a. key a = Inr (k a)) \<Longrightarrow> keyed key xs = Inr (map (\<lambda>a. (k a, a)) xs)"
  by (induction xs) auto

lemma count_zones_one_zone:
  "\<forall>s \<in> set shots. zone s = z \<Longrightarrow>
   count_zones shots [(z, c)] =
     [(z, \<lparr>zc_makes = zc_makes c + int (length (filter (\<lambda>s. outcome s = ''make'') shots)),
           zc_attempts = zc_attempts c + int (length shots)\<rparr>)]"
proof (induction shots arbitrary: c)
  case Nil
  then show ?case by simp
next
  case (Cons s shots)
  have z: "zone s = z" and rest: "\<forall>s \<in> set shots. zone s = z" using Cons.prems by simp_all
  show ?case
    using Cons.IH[OF rest] by (simp add: count_shot_Cons z)
qed

subsection \<open>No key function raises\<close>

lemma hot_key_total: "hot_key x = Inr (hot_score x)"
  by (simp add: hot_key_def hot_score_def py_truediv_def)

lemma hot_zone_total: "\<exists>z. hot_zone shots = Inr z"
  by (simp add: hot_zone_def py_max_def keyed_total[of hot_key hot_score, OF hot_key_total] split: list.splits)

lemma calculate_statistics_total:
  "\<exists>st g'. calculate_statistics shots g = Inr (st, g')
     \<and> totalShots st = int (length shots)
     \<and> makes st = int (length (filter (\<lambda>s. outcome s = ''make'') shots))
     \<and> misses st = totalShots st - makes st"
proof -
  obtain z where z: "hot_zone shots = Inr z" using hot_zone_total by blast
  show ?thesis
    by (simp add: calculate_statistics_def Let_def z py_truediv_def split: prod.splits)
qed

lemma calculate_statistics_fg:
  assumes "calculate_statistics shots g = Inr (st, g')"
  shows "fieldGoalPercentage st =
         (if 0 < totalShots st
          then py_round (fmul (fdiv (real_of_int (makes st)) (real_of_int (totalShots st))) 100) 1
          else 0)"
proof -
  obtain z where z: "hot_zone shots = Inr z" using hot_zone_total by blast
  show ?thesis
    using assms
    by (auto simp: calculate_statistics_def Let_def z py_truediv_def split: prod.splits if_splits)
qed

lemma rate_key_total: "rate_key x = Inr (rate_score x)"
  by (simp add: rate_key_def rate_score_def py_truediv_def)

lemma zone_entry_total: "zone_entry x = Inr (entry_of x)"
  by (simp add: zone_entry_def entry_of_def py_truediv_def)

lemma zone_entries_total: "zone_entries xs = Inr (map entry_of xs)"
  by (induction xs) (simp_all add: zone_entry_total)

lemma py_sorted_reverse_rate:
  "py_sorted_reverse rate_key items =
     Inr (map snd (rev (sort_key fst (rev (map (\<lambda>a. (rate_score a, a)) items)))))"
  by (simp add: py_sorted_reverse_def keyed_total[of rate_key rate_score, OF rate_key_total])

lemma set_sorted_items:
  "set (map snd (rev (sort_key fst (rev (map (\<lambda>a. (rate_score a, a)) items))))) = set items"
  by (simp add: image_image)

lemma calculate_zone_stats_eq:
  "calculate_zone_stats shots =
     Inr (map entry_of (map snd (rev (sort_key fst (rev (map (\<lambda>a. (rate_score a, a)) (count_zones shots [])))))))"
  by (simp add: calculate_zone_stats_def py_sorted_reverse_rate zone_entries_total)

lemma entry_of_ok:
  "counts_ok (snd x) \<Longrightarrow>
     0 \<le> zone_makes (entry_of x) \<and> zone_makes (entry_of x) \<le> attempts (entry_of x)
     \<and> 0 < attempts (entry_of x)
     \<and> percentage (entry_of x) =
         (if attempts (entry_of x) > 0
          then py_round (fmul (fdiv (real_of_int (zone_makes (entry_of x)))
                                    (real_of_int (attempts (entry_of x)))) 100) 1
          else 0)"
  by (simp add: entry_of_def counts_ok_def)

lemma hot_zone_empty: "hot_zone [] = Inr ''mid-range''"
  by (simp add: hot_zone_def py_max_def)

subsection \<open>Concrete runs\<close>

lemma mk_shot_sel: "zone (mk_shot z oc) = z" "outcome (mk_shot z oc) = oc"
  by (simp_all add: mk_shot_def)

lemma count_zones_one_paint:
  "count_zones [mk_shot ''paint'' ''miss''] [] = [(''paint'', \<lparr>zc_makes = 0, zc_attempts = 1\<rparr>)]"
  by (simp add: count_shot_def mk_shot_sel)

lemma hot_zone_one_paint: "hot_zone [mk_shot ''paint'' ''miss''] = Inr ''paint''"
  unfolding hot_zone_def py_max_def count_zones_one_paint by (simp add: hot_key_def)

lemma count_zones_paint_topkey:
  "count_zones [mk_shot ''paint'' ''miss'', mk_shot ''top-key'' ''miss'', mk_shot ''top-key'' ''miss'',
     mk_shot ''top-key'' ''miss''] [] =
   [(''paint'', \<lparr>zc_makes = 0, zc_attempts = 1\<rparr>), (''top-key'', \<lparr>zc_makes = 0, zc_attempts = 3\<rparr>)]"
  by (simp add: count_shot_def mk_shot_sel)

lemma hot_key_paint_topkey:
  "hot_key (''paint'', \<lparr>zc_makes = 0, zc_attempts = 1\<rparr>) = Inr 0"
  "hot_key (''top-key'', \<lparr>zc_makes = 0, zc_attempts = 3\<rparr>) = Inr 0"
  by (simp_all add: hot_key_def py_truediv_def fdiv_def rd_0)

lemma hot_zone_paint_topkey:
  "hot_zone [mk_shot ''paint'' ''miss'', mk_shot ''top-key'' ''miss'', mk_shot ''top-key'' ''miss'',
     mk_shot ''top-key'' ''miss''] = Inr ''paint''"
  unfolding hot_zone_def py_max_def count_zones_paint_topkey
  by (simp add: hot_key_paint_topkey)

lemma display_name_paint: "display_name ''paint'' = ''Paint''" "display_name ''mid-range'' = ''Mid Range''"
  by code_simp+

lemma hotZone_one_paint:
  "map_sum id (\<lambda>r. hotZone (fst r))
     (calculate_statistics [mk_shot ''paint'' ''miss''] \<lparr>draws = (\<lambda>n. 1 / 2), pos = 0\<rparr>) = Inr ''Paint''"
  unfolding calculate_statistics_def hot_zone_one_paint
  by (simp add: display_name_paint py_truediv_def Let_def uniform_def random_def mk_shot_sel three_zones_def)

lemma percentage_49_80:
  "py_round (fmul (fdiv 49 80) 100) 1 = rd 61.3"
proof -
  have h0: "fdiv 49 80 = 2758454771764429 / 4503599627370496"
    unfolding fdiv_def by (subst rd_eval[where e = "-1"]) (simp_all add: round_half_even_def)
  have h1: "fmul (2758454771764429 / 4503599627370496) 100 = 8620171161763841 / 140737488355328"
    unfolding fmul_def by (subst rd_eval[where e = "5"]) (simp_all add: round_half_even_def)
  have h2: "round_half_even (43100855808819205 / 70368744177664) = 613"
    by (simp add: round_half_even_def)
  show ?thesis
    by (simp add: py_round_def h0 h1 h2)
qed

lemma percentage_23_80:
  "py_round (fmul (fdiv 23 80) 100) 1 = rd 28.7"
proof -
  have h0: "fdiv 23 80 = 2589569785738035 / 9007199254740992"
    unfolding fdiv_def by (subst rd_eval[where e = "-2"]) (simp_all add: round_half_even_def)
  have h1: "fmul (2589569785738035 / 9007199254740992) 100 = 8092405580431359 / 281474976710656"
    unfolding fmul_def by (subst rd_eval[where e = "4"]) (simp_all add: round_half_even_def)
  have h2: "round_half_even (40462027902156795 / 140737488355328) = 287"
    by (simp add: round_half_even_def)
  show ?thesis
    by (simp add: py_round_def h0 h1 h2)
qed

lemma rd_612_613: "rd 61.2 < rd 61.3"
proof -
  have a: "rd (306 / 5) = 4306567143673037 / 70368744177664"
    by (subst rd_eval[where e = "5"]) (simp_all add: round_half_even_def)
  have b: "rd (613 / 10) = 4313604018090803 / 70368744177664"
    by (subst rd_eval[where e = "5"]) (simp_all add: round_half_even_def)
  show ?thesis by (simp add: a b)
qed

lemma paint_shots_count:
  "count_zones (paint_shots (Suc m) n) [] =
     [(''paint'', \<lparr>zc_makes = int (Suc m), zc_attempts = int (Suc m) + int n\<rparr>)]"
proof -
  have e: "paint_shots (Suc m) n = mk_shot ''paint'' ''make'' # paint_shots m n"
    by (simp add: paint_shots_def)
  have z: "\<forall>s \<in> set (paint_shots m n). zone s = ''paint''"
    by (auto simp: paint_shots_def mk_shot_sel)
  have f: "filter (\<lambda>s. outcome s = ''make'') (paint_shots m n) = replicate m (mk_shot ''paint'' ''make'')"
    by (simp add: paint_shots_def mk_shot_sel)
  have l: "length (paint_shots m n) = m + n" by (simp add: paint_shots_def)
  show ?thesis
    unfolding e count_zones.simps count_shot_Nil mk_shot_sel
    by (simp add: count_zones_one_zone[OF z] f l)
qed

lemma zone_stats_49_80:
  "calculate_zone_stats (paint_shots 49 31) =
     Inr [\<lparr>name = ''Paint'', attempts = 80, zone_makes = 49, percentage = rd 61.3\<rparr>]"
proof -
  have c: "count_zones (paint_shots 49 31) [] = [(''paint'', \<lparr>zc_makes = 49, zc_attempts = 80\<rparr>)]"
    using paint_shots_count[of 48 31] by simp
  show ?thesis
    unfolding calculate_zone_stats_eq c
    using percentage_49_80 by (simp add: entry_of_def display_name_paint)
qed

subsection \<open>Properties of the aggregator\<close>

text \<open>
  C1. For every list of shot events and every state of the random source,
  \<^verbatim>\<open>_calculate_statistics\<close> returns (it does not raise), and the statistics it returns
  satisfy makes + misses = totalShots = len(shots), where makes is the number of shots whose
  outcome is the string make and misses is totalShots minus makes.
\<close>

theorem statistics_counts:
  "\<exists>st g'. calculate_statistics shots g = Inr (st, g')
     \<and> makes st + misses st = totalShots st
     \<and> totalShots st = int (length shots)
     \<and> makes st = int (length (filter (\<lambda>s. outcome s = ''make'') shots))
     \<and> misses st = totalShots st - makes st"
proof -
  from calculate_statistics_total[of shots g] obtain st g' where
    r: "calculate_statistics shots g = Inr (st, g')" and
    t: "totalShots st = int (length shots)" and
    m: "makes st = int (length (filter (\<lambda>s. outcome s = ''make'') shots))" and
    d: "misses st = totalShots st - makes st"
    by (elim exE conjE)
  from d have "makes st + misses st = totalShots st" by simp
  with r t m d show ?thesis by blast
qed

text \<open>
  C8. For every list of shot events, \<^verbatim>\<open>_calculate_zone_stats\<close> returns (no division by
  zero, no failure on an empty list), and every entry it returns has
  0 \<le> makes \<le> attempts, with percentage = round(makes / attempts * 100, 1) when
  attempts > 0 and percentage = 0 otherwise; every entry in fact has attempts > 0, and an
  entry built from a zone without attempts would have the percentage 0. The percentage is
  the value Python computes: the quotient and its product with 100 are rounded to doubles,
  and \<^verbatim>\<open>round\<close> rounds the double it is given, so 49 makes in 80 attempts give 61.3 (the
  product is the double just above 61.25) where the exact quotient would give 61.2.
  \<^verbatim>\<open>_calculate_statistics\<close> returns on every list as well, its field goal percentage
  computed in the same way from makes and totalShots, and 0 for the empty list.
\<close>

theorem zone_stats_invariant:
  "(\<exists>zs. calculate_zone_stats shots = Inr zs
     \<and> list_all (\<lambda>z. 0 \<le> zone_makes z \<and> zone_makes z \<le> attempts z \<and> 0 < attempts z
                  \<and> percentage z =
                      (if attempts z > 0
                       then py_round (fmul (fdiv (real_of_int (zone_makes z))
                                                 (real_of_int (attempts z))) 100) 1
                       else 0)) zs)
   \<and> calculate_zone_stats [] = Inr []
   \<and> (\<exists>st g'. calculate_statistics shots g = Inr (st, g')
         \<and> fieldGoalPercentage st =
             (if 0 < totalShots st
              then py_round (fmul (fdiv (real_of_int (makes st)) (real_of_int (totalShots st))) 100) 1
              else 0))
   \<and> zone_entry (z, \<lparr>zc_makes = m, zc_attempts = 0\<rparr>)
        = Inr \<lparr>name = display_name z, attempts = 0, zone_makes = m, percentage = 0\<rparr>
   \<and> calculate_zone_stats (paint_shots 49 31)
        = Inr [\<lparr>name = ''Paint'', attempts = 80, zone_makes = 49, percentage = rd 61.3\<rparr>]
   \<and> py_round (fmul (fdiv 49 80) 100) 1 = rd 61.3
   \<and> py_round (fmul (fdiv 23 80) 100) 1 = rd 28.7
   \<and> rd 61.2 < rd 61.3"
proof -
  have ok: "list_all (\<lambda>x. counts_ok (snd x)) (count_zones shots [])"
    by (rule count_zones_ok) simp
  let ?items = "map snd (rev (sort_key fst (rev (map (\<lambda>a. (rate_score a, a)) (count_zones shots [])))))"
  have "\<forall>x \<in> set ?items. counts_ok (snd x)"
    using ok unfolding set_sorted_items by (simp add: list_all_iff)
  then have "list_all (\<lambda>z. 0 \<le> zone_makes z \<and> zone_makes z \<le> attempts z \<and> 0 < attempts z
                  \<and> percentage z =
                      (if attempts z > 0
                       then py_round (fmul (fdiv (real_of_int (zone_makes z))
                                                 (real_of_int (attempts z))) 100) 1
                       else 0)) (map entry_of ?items)"
    unfolding list_all_iff using entry_of_ok by auto
  then have a: "\<exists>zs. calculate_zone_stats shots = Inr zs
     \<and> list_all (\<lambda>z. 0 \<le> zone_makes z \<and> zone_makes z \<le> attempts z \<and> 0 < attempts z
                  \<and> percentage z =
                      (if attempts z > 0
                       then py_round (fmul (fdiv (real_of_int (zone_makes z))
                                                 (real_of_int (attempts z))) 100) 1
                       else 0)) zs"
    unfolding calculate_zone_stats_eq by blast
  have b: "calculate_zone_stats [] = Inr []"
    by (simp add: calculate_zone_stats_eq)
  have c: "\<exists>st g'. calculate_statistics shots g = Inr (st, g')
         \<and> fieldGoalPercentage st =
             (if 0 < totalShots st
              then py_round (fmul (fdiv (real_of_int (makes st)) (real_of_int (totalShots st))) 100) 1
              else 0)"
    using calculate_statistics_total[of shots g] calculate_statistics_fg[of shots g] by blast
  have d: "zone_entry (z, \<lparr>zc_makes = m, zc_attempts = 0\<rparr>)
        = Inr \<lparr>name = display_name z, attempts = 0, zone_makes = m, percentage = 0\<rparr>"
    by (simp add: zone_entry_def)
  from a b c d zone_stats_49_80 percentage_49_80 percentage_23_80 rd_612_613
  show ?thesis by (intro conjI)
qed

text \<open>
  C4. The hot zone the code computes where the rule of the specification gives another one.
  One missed shot in the paint: no zone has more than 2 attempts, the key of the \<^verbatim>\<open>max\<close>
  call is 0 for the only zone, and the hot zone is paint (shown as Paint), not the default
  mid-range (shown as Mid Range), which the code returns for the empty list only. One missed
  shot in the paint followed by three missed shots from the top of the key: top-key is the
  only zone with more than 2 attempts, its key is its make rate 0, equal to the key 0 of
  paint, and the hot zone is paint, the first zone of the dictionary.
\<close>

theorem hot_zone_below_threshold:
  "count_zones [mk_shot ''paint'' ''miss''] [] = [(''paint'', \<lparr>zc_makes = 0, zc_attempts = 1\<rparr>)]
   \<and> hot_key (''paint'', \<lparr>zc_makes = 0, zc_attempts = 1\<rparr>) = Inr 0
   \<and> hot_zone [mk_shot ''paint'' ''miss''] = Inr ''paint''
   \<and> map_sum id (\<lambda>r. hotZone (fst r))
        (calculate_statistics [mk_shot ''paint'' ''miss''] \<lparr>draws = (\<lambda>n. 1 / 2), pos = 0\<rparr>)
      = Inr ''Paint''
   \<and> hot_zone [] = Inr ''mid-range''
   \<and> display_name ''mid-range'' = ''Mid Range''
   \<and> count_zones [mk_shot ''paint'' ''miss'', mk_shot ''top-key'' ''miss'',
         mk_shot ''top-key'' ''miss'', mk_shot ''top-key'' ''miss''] []
      = [(''paint'', \<lparr>zc_makes = 0, zc_attempts = 1\<rparr>),
         (''top-key'', \<lparr>zc_makes = 0, zc_attempts = 3\<rparr>)]
   \<and> hot_key (''top-key'', \<lparr>zc_makes = 0, zc_attempts = 3\<rparr>) = Inr 0
   \<and> hot_zone [mk_shot ''paint'' ''miss'', mk_shot ''top-key'' ''miss'',
         mk_shot ''top-key'' ''miss'', mk_shot ''top-key'' ''miss''] = Inr ''paint''"
  using count_zones_one_paint hot_key_paint_topkey hot_zone_one_paint hotZone_one_paint
    hot_zone_empty display_name_paint(2) count_zones_paint_topkey hot_zone_paint_topkey
  by (intro conjI)

section \<open>Shot detector: results\<close>

subsection \<open>The analysis of one window\<close>

lemma argmin_nonempty: "w \<noteq> [] \<Longrightarrow> argmin (map s_y w) = Inr (peak_index w)"
  by (cases w) (simp_all add: argmin_def peak_index_def)

lemma analyze_trajectory_eq:
  "analyze_trajectory w g =
     (if shot_attempt w then Inr ((True, fst (classify w g)), snd (classify w g))
      else Inr ((False, ''unknown''), g))"
proof (cases "5 \<le> length w")
  case False
  then show ?thesis by (simp add: analyze_trajectory_def shot_attempt_def)
next
  case True
  then have ne: "w \<noteq> []" by auto
  show ?thesis
    unfolding analyze_trajectory_def Let_def argmin_nonempty[OF ne]
    using True
    by (simp add: shot_attempt_def classify_def clear_make_def clear_miss_def random_def
          hoop_offset_def)
qed

lemma calculate_shot_confidence_eq:
  "w \<noteq> [] \<Longrightarrow> calculate_shot_confidence w oc = Inr (shot_conf w)"
  by (simp add: calculate_shot_confidence_def shot_conf_def hoop_offset_def Let_def)

lemma upward_motion_iff:
  assumes "5 \<le> length w"
  shows "upward_motion w \<longleftrightarrow>
           s_y (w ! 0) > s_y (w ! 1) \<and> s_y (w ! 1) > s_y (w ! 2) \<and> s_y (w ! 2) > s_y (w ! 3)"
proof -
  have l: "length (map s_y (take 5 w)) = 5" using assms by simp
  have u: "[0..<min 3 (length (map s_y (take 5 w)) - 1)] = [0, 1, 2]"
    unfolding l by (simp add: upt_rec)
  have n: "map s_y (take 5 w) ! i = s_y (w ! i)" if "i < 5" for i
    using that assms by simp
  show ?thesis
    unfolding upward_motion_def Let_def u
    by (simp add: n numeral_2_eq_2 numeral_3_eq_3)
qed

lemma argmin_loop_first_min:
  assumes "i = length pre" "bi < i" "pre ! bi = b" "\<forall>j<i. b \<le> pre ! j" "\<forall>j<bi. b < pre ! j"
  shows "argmin_loop vs i bi b < length (pre @ vs)
     \<and> (\<forall>j<length (pre @ vs). (pre @ vs) ! (argmin_loop vs i bi b) \<le> (pre @ vs) ! j)
     \<and> (\<forall>j<argmin_loop vs i bi b. (pre @ vs) ! (argmin_loop vs i bi b) < (pre @ vs) ! j)"
  using assms
proof (induction vs arbitrary: pre i bi b)
  case Nil
  then show ?case by simp
next
  case (Cons v vs)
  have app: "pre @ v # vs = (pre @ [v]) @ vs" by simp
  show ?case
  proof (cases "v < b")
    case True
    have "argmin_loop vs (i + 1) i v < length ((pre @ [v]) @ vs)
     \<and> (\<forall>j<length ((pre @ [v]) @ vs). ((pre @ [v]) @ vs) ! (argmin_loop vs (i + 1) i v) \<le> ((pre @ [v]) @ vs) ! j)
     \<and> (\<forall>j<argmin_loop vs (i + 1) i v. ((pre @ [v]) @ vs) ! (argmin_loop vs (i + 1) i v) < ((pre @ [v]) @ vs) ! j)"
    proof (rule Cons.IH)
      show "i + 1 = length (pre @ [v])" using Cons.prems(1) by simp
      show "i < i + 1" by simp
      show "(pre @ [v]) ! i = v" using Cons.prems(1) by simp
      show "\<forall>j<i + 1. v \<le> (pre @ [v]) ! j"
        using Cons.prems(1,4) True by (auto simp: nth_append less_Suc_eq)
      show "\<forall>j<i. v < (pre @ [v]) ! j"
        using Cons.prems(1,4) True by (auto simp: nth_append)
    qed
    then show ?thesis using True unfolding app by simp
  next
    case False
    have "argmin_loop vs (i + 1) bi b < length ((pre @ [v]) @ vs)
     \<and> (\<forall>j<length ((pre @ [v]) @ vs). ((pre @ [v]) @ vs) ! (argmin_loop vs (i + 1) bi b) \<le> ((pre @ [v]) @ vs) ! j)
     \<and> (\<forall>j<argmin_loop vs (i + 1) bi b. ((pre @ [v]) @ vs) ! (argmin_loop vs (i + 1) bi b) < ((pre @ [v]) @ vs) ! j)"
    proof (rule Cons.IH)
      show "i + 1 = length (pre @ [v])" using Cons.prems(1) by simp
      show "bi < i + 1" using Cons.prems(2) by simp
      show "(pre @ [v]) ! bi = b" using Cons.prems(1,2,3) by (simp add: nth_append)
      show "\<forall>j<i + 1. b \<le> (pre @ [v]) ! j"
        using Cons.prems(1,4) False by (auto simp: nth_append less_Suc_eq)
      show "\<forall>j<bi. b < (pre @ [v]) ! j"
        using Cons.prems(1,2,5) by (auto simp: nth_append)
    qed
    then show ?thesis using False unfolding app by simp
  qed
qed

lemma peak_index_first_min:
  assumes "w \<noteq> []"
  shows "peak_index w < length w
     \<and> (\<forall>j<length w. s_y (w ! peak_index w) \<le> s_y (w ! j))
     \<and> (\<forall>j<peak_index w. s_y (w ! peak_index w) < s_y (w ! j))"
proof -
  obtain a rest where w: "w = a # rest" using assms by (cases w) auto
  have p: "peak_index w = argmin_loop (map s_y rest) 1 0 (s_y a)"
    by (simp add: peak_index_def w)
  have "argmin_loop (map s_y rest) 1 0 (s_y a) < length ([s_y a] @ map s_y rest)
     \<and> (\<forall>j<length ([s_y a] @ map s_y rest). ([s_y a] @ map s_y rest) ! (argmin_loop (map s_y rest) 1 0 (s_y a)) \<le> ([s_y a] @ map s_y rest) ! j)
     \<and> (\<forall>j<argmin_loop (map s_y rest) 1 0 (s_y a). ([s_y a] @ map s_y rest) ! (argmin_loop (map s_y rest) 1 0 (s_y a)) < ([s_y a] @ map s_y rest) ! j)"
    by (rule argmin_loop_first_min) simp_all
  moreover have eq: "[s_y a] @ map s_y rest = map s_y w" by (simp add: w)
  ultimately have k: "peak_index w < length (map s_y w)
     \<and> (\<forall>j<length (map s_y w). map s_y w ! peak_index w \<le> map s_y w ! j)
     \<and> (\<forall>j<peak_index w. map s_y w ! peak_index w < map s_y w ! j)"
    unfolding eq p[symmetric] by blast
  then have lt: "peak_index w < length w" by simp
  show ?thesis
  proof (intro conjI allI impI)
    show "peak_index w < length w" by (rule lt)
    fix j assume "j < length w"
    then show "s_y (w ! peak_index w) \<le> s_y (w ! j)" using k lt by (metis length_map nth_map)
  next
    fix j assume j: "j < peak_index w"
    then have "j < length w" using lt by simp
    then show "s_y (w ! peak_index w) < s_y (w ! j)" using k lt j by (metis length_map nth_map)
  qed
qed

lemma ball_at_sel: "s_x (ball_at f cx cy) = cx" "s_y (ball_at f cx cy) = cy"
  "s_frame (ball_at f cx cy) = f"
  by (simp_all add: ball_at_def)

lemma shot_attempt_explicit:
  assumes "5 \<le> length w"
  shows "shot_attempt w \<longleftrightarrow>
     (s_y (w ! 0) > s_y (w ! 1) \<and> s_y (w ! 1) > s_y (w ! 2) \<and> s_y (w ! 2) > s_y (w ! 3))
     \<and> (\<bar>fsub (fdiv (s_x (last w)) 1920) 0.5\<bar> < \<bar>fsub (fdiv (s_x (w ! 0)) 1920) 0.5\<bar>
          \<or> \<bar>fsub (fdiv (s_x (last w)) 1920) 0.5\<bar> < rd 0.2)"
proof -
  have "w \<noteq> []" using assms by auto
  then have h: "hd w = w ! 0" by (rule hd_conv_nth)
  show ?thesis
    unfolding shot_attempt_def upward_motion_iff[OF assms] h hoop_offset_def using assms by simp
qed

lemma rising_shot_nth:
  "length rising_shot = 7" "last rising_shot = ball_at 6 960 108"
  "rising_shot ! 0 = ball_at 0 960 500" "rising_shot ! Suc 0 = ball_at 1 960 400"
  "rising_shot ! 2 = ball_at 2 960 300" "rising_shot ! 3 = ball_at 3 960 200"
  by (simp_all add: rising_shot_def)

lemma edge_window_nth:
  "length (edge_window cx) = 10" "last (edge_window cx) = ball_at 9 cx 100"
  "edge_window cx ! 0 = ball_at 0 960 500" "edge_window cx ! Suc 0 = ball_at 1 960 400"
  "edge_window cx ! 2 = ball_at 2 960 300" "edge_window cx ! 3 = ball_at 3 960 200"
  "hd (edge_window cx) = ball_at 0 960 500"
  by (simp_all add: edge_window_def)

lemma hoop_offset_1536:
  "hoop_offset 1536 = 1351079888211149 / 4503599627370496"
proof -
  have h0: "fdiv 1536 1920 = 3602879701896397 / 4503599627370496"
    unfolding fdiv_def by (subst rd_eval[where e = "-1"]) (simp_all add: round_half_even_def)
  have h1: "fsub (3602879701896397 / 4503599627370496) (1 / 2) = 1351079888211149 / 4503599627370496"
    unfolding fsub_def by (subst rd_eval[where e = "-2"]) (simp_all add: round_half_even_def)
  show ?thesis
    by (simp add: hoop_offset_def h0 h1)
qed

lemma hoop_offset_raw: "\<bar>fsub (fdiv x 1920) 0.5\<bar> = hoop_offset x"
  by (simp add: hoop_offset_def)

text \<open>
  C3. A window of at least 5 samples is analysed without an exception, and it is classified
  as a shot attempt exactly when the y value strictly decreases from the first sample to the
  second, from the second to the third and from the third to the fourth, and, with the first
  and the last x divided by 1920, the last is closer to 0.5 than the first or closer to 0.5
  than 0.2. The quotients, the differences from 0.5 and the threshold are the doubles the
  code computes: a window that ends at x = 1344, where the exact distance is 0.2, is a shot
  attempt, because the double of 1344 / 1920 lies below 0.7. A window that fails a test
  yields (False, unknown) and leaves the random source as it was; so does a window of fewer
  than 5 samples.
\<close>

theorem shot_attempt_criterion:
  "(5 \<le> length window \<longrightarrow>
      (\<exists>r g'. analyze_trajectory window g = Inr (r, g')
         \<and> (fst r \<longleftrightarrow>
               (s_y (window ! 0) > s_y (window ! 1) \<and> s_y (window ! 1) > s_y (window ! 2)
                  \<and> s_y (window ! 2) > s_y (window ! 3))
               \<and> (\<bar>fsub (fdiv (s_x (last window)) 1920) 0.5\<bar>
                      < \<bar>fsub (fdiv (s_x (window ! 0)) 1920) 0.5\<bar>
                    \<or> \<bar>fsub (fdiv (s_x (last window)) 1920) 0.5\<bar> < rd 0.2))
         \<and> (\<not> fst r \<longrightarrow> r = (False, ''unknown'') \<and> g' = g)))
   \<and> (length window < 5 \<longrightarrow> analyze_trajectory window g = Inr ((False, ''unknown''), g))"
proof (intro conjI impI)
  assume len: "5 \<le> length window"
  show "\<exists>r g'. analyze_trajectory window g = Inr (r, g')
         \<and> (fst r \<longleftrightarrow>
               (s_y (window ! 0) > s_y (window ! 1) \<and> s_y (window ! 1) > s_y (window ! 2)
                  \<and> s_y (window ! 2) > s_y (window ! 3))
               \<and> (\<bar>fsub (fdiv (s_x (last window)) 1920) 0.5\<bar>
                      < \<bar>fsub (fdiv (s_x (window ! 0)) 1920) 0.5\<bar>
                    \<or> \<bar>fsub (fdiv (s_x (last window)) 1920) 0.5\<bar> < rd 0.2))
         \<and> (\<not> fst r \<longrightarrow> r = (False, ''unknown'') \<and> g' = g)"
  proof (cases "shot_attempt window")
    case True
    then have "analyze_trajectory window g = Inr ((True, fst (classify window g)), snd (classify window g))"
      by (simp add: analyze_trajectory_eq)
    moreover note True[unfolded shot_attempt_explicit[OF len]]
    ultimately show ?thesis by simp
  next
    case False
    then have "analyze_trajectory window g = Inr ((False, ''unknown''), g)"
      by (simp add: analyze_trajectory_eq)
    moreover note False[unfolded shot_attempt_explicit[OF len]]
    ultimately show ?thesis by simp
  qed
next
  assume "length window < 5"
  then show "analyze_trajectory window g = Inr ((False, ''unknown''), g)"
    by (simp add: analyze_trajectory_def)
qed

text \<open>
  The theorem at the rising ball, a window of 7 samples that passes both tests; at its first
  4 samples; at the window that ends at x = 1344, a shot attempt by the second test (the
  double computed for the distance is below the double of 0.2, the exact distance is not
  below 0.2); and at the window that ends at x = 1536, which fails the test.
\<close>

theorem shot_attempt_criterion_witness:
  "5 \<le> length rising_shot
   \<and> (\<exists>r g'. analyze_trajectory rising_shot \<lparr>draws = (\<lambda>n. 1 / 2), pos = 0\<rparr> = Inr (r, g') \<and> fst r)
   \<and> length (take 4 rising_shot) < 5
   \<and> analyze_trajectory (take 4 rising_shot) \<lparr>draws = (\<lambda>n. 1 / 2), pos = 0\<rparr>
        = Inr ((False, ''unknown''), \<lparr>draws = (\<lambda>n. 1 / 2), pos = 0\<rparr>)
   \<and> 5 \<le> length (edge_window 1344)
   \<and> (\<exists>r g'. analyze_trajectory (edge_window 1344) \<lparr>draws = (\<lambda>n. 1 / 2), pos = 0\<rparr> = Inr (r, g')
          \<and> fst r)
   \<and> \<bar>fsub (fdiv 1344 1920) 0.5\<bar> < rd 0.2
   \<and> \<not> \<bar>1344 / 1920 - 0.5\<bar> < (0.2 :: real)
   \<and> analyze_trajectory (edge_window 1536) \<lparr>draws = (\<lambda>n. 1 / 2), pos = 0\<rparr>
        = Inr ((False, ''unknown''), \<lparr>draws = (\<lambda>n. 1 / 2), pos = 0\<rparr>)"
proof -
  let ?g = "\<lparr>draws = (\<lambda>n. 1 / 2), pos = 0\<rparr>"
  have l: "5 \<le> length rising_shot" by (simp add: rising_shot_nth)
  have l4: "length (take 4 rising_shot) < 5" by (simp add: rising_shot_nth)
  have le: "5 \<le> length (edge_window cx)" for cx by (simp add: edge_window_nth)
  from shot_attempt_criterion[of rising_shot ?g] l
  obtain r g' where
    a: "analyze_trajectory rising_shot ?g = Inr (r, g')" and
    b: "fst r \<longleftrightarrow>
               (s_y (rising_shot ! 0) > s_y (rising_shot ! 1) \<and> s_y (rising_shot ! 1) > s_y (rising_shot ! 2)
                  \<and> s_y (rising_shot ! 2) > s_y (rising_shot ! 3))
               \<and> (\<bar>fsub (fdiv (s_x (last rising_shot)) 1920) 0.5\<bar>
                      < \<bar>fsub (fdiv (s_x (rising_shot ! 0)) 1920) 0.5\<bar>
                    \<or> \<bar>fsub (fdiv (s_x (last rising_shot)) 1920) 0.5\<bar> < rd 0.2)"
    by blast
  have "fst r" unfolding b hoop_offset_raw
    by (simp add: rising_shot_nth ball_at_sel hoop_offset_960 rd_02)
  with a have c: "\<exists>r g'. analyze_trajectory rising_shot ?g = Inr (r, g') \<and> fst r"
    by blast
  from shot_attempt_criterion[of "take 4 rising_shot" ?g] l4
  have d: "analyze_trajectory (take 4 rising_shot) ?g = Inr ((False, ''unknown''), ?g)" by blast
  from shot_attempt_criterion[of "edge_window 1344" ?g] le[of 1344]
  obtain r2 g2 where
    a2: "analyze_trajectory (edge_window 1344) ?g = Inr (r2, g2)" and
    b2: "fst r2 \<longleftrightarrow>
               (s_y (edge_window 1344 ! 0) > s_y (edge_window 1344 ! 1)
                  \<and> s_y (edge_window 1344 ! 1) > s_y (edge_window 1344 ! 2)
                  \<and> s_y (edge_window 1344 ! 2) > s_y (edge_window 1344 ! 3))
               \<and> (\<bar>fsub (fdiv (s_x (last (edge_window 1344))) 1920) 0.5\<bar>
                      < \<bar>fsub (fdiv (s_x (edge_window 1344 ! 0)) 1920) 0.5\<bar>
                    \<or> \<bar>fsub (fdiv (s_x (last (edge_window 1344))) 1920) 0.5\<bar> < rd 0.2)"
    by blast
  have "fst r2" unfolding b2 hoop_offset_raw
    by (simp add: edge_window_nth ball_at_sel hoop_offset_960 hoop_offset_1344 rd_02)
  with a2 have c2: "\<exists>r g'. analyze_trajectory (edge_window 1344) ?g = Inr (r, g') \<and> fst r"
    by blast
  have e: "\<bar>fsub (fdiv 1344 1920) 0.5\<bar> < rd 0.2"
    unfolding hoop_offset_raw by (simp add: hoop_offset_1344 rd_02)
  have f: "\<not> \<bar>1344 / 1920 - 0.5\<bar> < (0.2 :: real)" by simp
  from shot_attempt_criterion[of "edge_window 1536" ?g] le[of 1536]
  obtain r3 g3 where
    a3: "analyze_trajectory (edge_window 1536) ?g = Inr (r3, g3)" and
    b3: "fst r3 \<longleftrightarrow>
               (s_y (edge_window 1536 ! 0) > s_y (edge_window 1536 ! 1)
                  \<and> s_y (edge_window 1536 ! 1) > s_y (edge_window 1536 ! 2)
                  \<and> s_y (edge_window 1536 ! 2) > s_y (edge_window 1536 ! 3))
               \<and> (\<bar>fsub (fdiv (s_x (last (edge_window 1536))) 1920) 0.5\<bar>
                      < \<bar>fsub (fdiv (s_x (edge_window 1536 ! 0)) 1920) 0.5\<bar>
                    \<or> \<bar>fsub (fdiv (s_x (last (edge_window 1536))) 1920) 0.5\<bar> < rd 0.2)" and
    c3: "\<not> fst r3 \<longrightarrow> r3 = (False, ''unknown'') \<and> g3 = ?g"
    by blast
  have "\<not> fst r3" unfolding b3 hoop_offset_raw
    by (simp add: edge_window_nth ball_at_sel hoop_offset_960 hoop_offset_1536 rd_02)
  with c3 a3 have g: "analyze_trajectory (edge_window 1536) ?g = Inr ((False, ''unknown''), ?g)"
    by simp
  from l c l4 d le[of 1344] c2 e f g show ?thesis by (intro conjI)
qed

lemma shot_attempt_hoop:
  assumes "5 \<le> length w"
  shows "shot_attempt w \<longleftrightarrow>
     (s_y (w ! 0) > s_y (w ! 1) \<and> s_y (w ! 1) > s_y (w ! 2) \<and> s_y (w ! 2) > s_y (w ! 3))
     \<and> (hoop_offset (s_x (last w)) < hoop_offset (s_x (w ! 0))
          \<or> hoop_offset (s_x (last w)) < rd 0.2)"
  unfolding shot_attempt_explicit[OF assms] hoop_offset_def ..

subsection \<open>The outcome of a shot attempt\<close>

lemma hanging_shot_nth:
  "length hanging_shot = 7" "last hanging_shot = ball_at 6 960 189"
  "hanging_shot ! 0 = ball_at 0 960 500" "hanging_shot ! Suc 0 = ball_at 1 960 400"
  "hanging_shot ! 2 = ball_at 2 960 300" "hanging_shot ! 3 = ball_at 3 960 200"
  by (simp_all add: hanging_shot_def)

lemma peak_index_edge: "peak_index (edge_window cx) = 4"
  by (simp add: peak_index_def edge_window_def ball_at_sel)

lemma draws_above_iff:
  "real k / 2 ^ 53 > rd 0.45 \<longleftrightarrow> 4053239664633447 \<le> k"
proof -
  have "real k / 2 ^ 53 > rd 0.45 \<longleftrightarrow> 8106479329266893 < 2 * real k"
    by (simp add: rd_045 field_simps)
  also have "\<dots> \<longleftrightarrow> real 8106479329266893 < real (2 * k)" by simp
  also have "\<dots> \<longleftrightarrow> 8106479329266893 < 2 * k" by (simp only: of_nat_less_iff)
  also have "\<dots> \<longleftrightarrow> 4053239664633447 \<le> k" by presburger
  finally show ?thesis .
qed

lemma draws_above_card:
  "card {k. k < 2 ^ 53 \<and> real k / 2 ^ 53 > rd 0.45} = 4953959590107545"
proof -
  have "{k. k < 2 ^ 53 \<and> real k / 2 ^ 53 > rd 0.45} = {4053239664633447..<2 ^ 53}"
    unfolding draws_above_iff by auto
  then show ?thesis by simp
qed

lemma draws_below_card:
  "card {k. k < 2 ^ 53 \<and> \<not> real k / 2 ^ 53 > rd 0.45} = 4053239664633447"
proof -
  have "{k. k < 2 ^ 53 \<and> \<not> real k / 2 ^ 53 > rd 0.45} = {0..<4053239664633447}"
    unfolding draws_above_iff by auto
  then show ?thesis by simp
qed

text \<open>
  C2. A window qualifies when it has at least 5 samples, its y value strictly decreases over
  the first three consecutive pairs, and its last x is closer to the centre than its first or
  closer than 0.2. For every such window, with final_y the last y divided by 1080 and end_x
  the last x divided by 1920, the analysis returns a shot attempt whose outcome is make when
  final_y < 0.15, |end_x - 0.5| < 0.1 and the index of the least y of the window (the first
  such index, as \<^verbatim>\<open>np.argmin\<close> returns it) is less than the length minus 2; otherwise it is
  miss when final_y > 0.2 or |end_x - 0.5| > 0.15; otherwise one draw of the random source
  decides, make when the draw exceeds 0.45 and miss when it does not. Only this last case
  advances the random source. The quotients, the differences and the thresholds are the
  doubles the code computes. Of the \<open>2\<^sup>5\<^sup>3\<close> equally likely values \<open>k / 2\<^sup>5\<^sup>3\<close> of a draw,
  4953959590107545 exceed the double of 0.45 and 4053239664633447 do not: make has the
  probability 0.55 and miss the probability 0.45 up to less than \<open>2\<^sup>-\<^sup>5\<^sup>3\<close>.
\<close>

theorem outcome_classification:
  assumes "5 \<le> length window"
    and "s_y (window ! 0) > s_y (window ! 1)"
    and "s_y (window ! 1) > s_y (window ! 2)"
    and "s_y (window ! 2) > s_y (window ! 3)"
    and "\<bar>fsub (fdiv (s_x (last window)) 1920) 0.5\<bar> < \<bar>fsub (fdiv (s_x (window ! 0)) 1920) 0.5\<bar>
           \<or> \<bar>fsub (fdiv (s_x (last window)) 1920) 0.5\<bar> < rd 0.2"
  shows "\<exists>peak. argmin (map s_y window) = Inr peak \<and> peak < length window
      \<and> (\<forall>j < length window. s_y (window ! peak) \<le> s_y (window ! j))
      \<and> (\<forall>j < peak. s_y (window ! peak) < s_y (window ! j))
      \<and> analyze_trajectory window g =
          (if fdiv (s_y (last window)) 1080 < rd 0.15
                \<and> \<bar>fsub (fdiv (s_x (last window)) 1920) 0.5\<bar> < rd 0.1
                \<and> int peak < int (length window) - 2
           then Inr ((True, ''make''), g)
           else if fdiv (s_y (last window)) 1080 > rd 0.2
                     \<or> \<bar>fsub (fdiv (s_x (last window)) 1920) 0.5\<bar> > rd 0.15
           then Inr ((True, ''miss''), g)
           else Inr ((True, if draws g (pos g) > rd 0.45 then ''make'' else ''miss''),
                     g\<lparr>pos := pos g + 1\<rparr>))
      \<and> card {k. k < 2 ^ 53 \<and> real k / 2 ^ 53 > rd 0.45} = 4953959590107545
      \<and> card {k. k < 2 ^ 53 \<and> \<not> real k / 2 ^ 53 > rd 0.45} = 4053239664633447
      \<and> \<bar>4953959590107545 / 2 ^ 53 - 0.55\<bar> < (1 / 2 ^ 53 :: real)
      \<and> \<bar>4053239664633447 / 2 ^ 53 - 0.45\<bar> < (1 / 2 ^ 53 :: real)"
proof -
  have sa: "shot_attempt window"
    unfolding shot_attempt_explicit[OF assms(1)] using assms(2-5) by simp
  have ne: "window \<noteq> []" using assms(1) by auto
  have p: "argmin (map s_y window) = Inr (peak_index window)" using ne by (rule argmin_nonempty)
  have q: "peak_index window < length window
     \<and> (\<forall>j<length window. s_y (window ! peak_index window) \<le> s_y (window ! j))
     \<and> (\<forall>j<peak_index window. s_y (window ! peak_index window) < s_y (window ! j))"
    using ne by (rule peak_index_first_min)
  have r: "analyze_trajectory window g =
          (if fdiv (s_y (last window)) 1080 < rd 0.15
                \<and> \<bar>fsub (fdiv (s_x (last window)) 1920) 0.5\<bar> < rd 0.1
                \<and> int (peak_index window) < int (length window) - 2
           then Inr ((True, ''make''), g)
           else if fdiv (s_y (last window)) 1080 > rd 0.2
                     \<or> \<bar>fsub (fdiv (s_x (last window)) 1920) 0.5\<bar> > rd 0.15
           then Inr ((True, ''miss''), g)
           else Inr ((True, if draws g (pos g) > rd 0.45 then ''make'' else ''miss''),
                     g\<lparr>pos := pos g + 1\<rparr>))"
    unfolding analyze_trajectory_eq using sa
    by (simp add: classify_def clear_make_def clear_miss_def hoop_offset_def)
  have c1: "\<bar>4953959590107545 / 2 ^ 53 - 0.55\<bar> < (1 / 2 ^ 53 :: real)" by simp
  have c2: "\<bar>4053239664633447 / 2 ^ 53 - 0.45\<bar> < (1 / 2 ^ 53 :: real)" by simp
  from p q r draws_above_card draws_below_card c1 c2 show ?thesis by blast
qed

text \<open>
  The theorem at three windows. The window that ends at x = 1152 is a make by the first test
  with no draw: the double computed for the distance lies below the double of 0.1, where the
  exact distance 0.1 is not below 0.1. The window that ends at x = 1248 is a miss by the
  second test with no draw: the double computed for the distance lies above the double of
  0.15. The hanging ball passes neither test, and the draw one half makes it a make.
\<close>

theorem outcome_classification_witness:
  "analyze_trajectory (edge_window 1152) half_draws = Inr ((True, ''make''), half_draws)
   \<and> argmin (map s_y (edge_window 1152)) = Inr 4
   \<and> \<bar>fsub (fdiv 1152 1920) 0.5\<bar> < rd 0.1
   \<and> \<not> \<bar>1152 / 1920 - 0.5\<bar> < (0.1 :: real)
   \<and> analyze_trajectory (edge_window 1248) half_draws = Inr ((True, ''miss''), half_draws)
   \<and> \<bar>fsub (fdiv 1248 1920) 0.5\<bar> > rd 0.15
   \<and> \<not> \<bar>1248 / 1920 - 0.5\<bar> > (0.15 :: real)
   \<and> analyze_trajectory hanging_shot half_draws = Inr ((True, ''make''), half_draws\<lparr>pos := 1\<rparr>)
   \<and> draws half_draws (pos half_draws) > rd 0.45"
proof -
  have le: "5 \<le> length (edge_window cx)" for cx by (simp add: edge_window_nth)
  have y: "s_y (edge_window cx ! 0) > s_y (edge_window cx ! 1)"
    "s_y (edge_window cx ! 1) > s_y (edge_window cx ! 2)"
    "s_y (edge_window cx ! 2) > s_y (edge_window cx ! 3)" for cx
    by (simp_all add: edge_window_nth ball_at_sel)
  have nee: "edge_window cx \<noteq> []" for cx by (simp add: edge_window_def)
  have pk: "argmin (map s_y (edge_window cx)) = Inr 4" for cx
    unfolding argmin_nonempty[OF nee] peak_index_edge ..
  have t1: "\<bar>fsub (fdiv (s_x (last (edge_window 1152))) 1920) 0.5\<bar>
              < \<bar>fsub (fdiv (s_x (edge_window 1152 ! 0)) 1920) 0.5\<bar>
           \<or> \<bar>fsub (fdiv (s_x (last (edge_window 1152))) 1920) 0.5\<bar> < rd 0.2"
    unfolding hoop_offset_raw
    by (simp add: edge_window_nth ball_at_sel hoop_offset_960 hoop_offset_1152 rd_02)
  from outcome_classification[OF le[of 1152] y[of 1152] t1, of half_draws]
  obtain peak where
    p: "argmin (map s_y (edge_window 1152)) = Inr peak" and
    a: "analyze_trajectory (edge_window 1152) half_draws =
          (if fdiv (s_y (last (edge_window 1152))) 1080 < rd 0.15
                \<and> \<bar>fsub (fdiv (s_x (last (edge_window 1152))) 1920) 0.5\<bar> < rd 0.1
                \<and> int peak < int (length (edge_window 1152)) - 2
           then Inr ((True, ''make''), half_draws)
           else if fdiv (s_y (last (edge_window 1152))) 1080 > rd 0.2
                     \<or> \<bar>fsub (fdiv (s_x (last (edge_window 1152))) 1920) 0.5\<bar> > rd 0.15
           then Inr ((True, ''miss''), half_draws)
           else Inr ((True, if draws half_draws (pos half_draws) > rd 0.45 then ''make'' else ''miss''),
                     half_draws\<lparr>pos := pos half_draws + 1\<rparr>))"
    by (elim exE conjE)
  have pe: "peak = 4" using p pk[of 1152] by simp
  have A: "analyze_trajectory (edge_window 1152) half_draws = Inr ((True, ''make''), half_draws)"
    unfolding a pe hoop_offset_raw
    by (simp add: edge_window_nth ball_at_sel hoop_offset_1152 fdiv_100_1080 rd_015 rd_01)
  have A1: "\<bar>fsub (fdiv 1152 1920) 0.5\<bar> < rd 0.1"
    unfolding hoop_offset_raw by (simp add: hoop_offset_1152 rd_01)
  have A2: "\<not> \<bar>1152 / 1920 - 0.5\<bar> < (0.1 :: real)" by simp
  have t2: "\<bar>fsub (fdiv (s_x (last (edge_window 1248))) 1920) 0.5\<bar>
              < \<bar>fsub (fdiv (s_x (edge_window 1248 ! 0)) 1920) 0.5\<bar>
           \<or> \<bar>fsub (fdiv (s_x (last (edge_window 1248))) 1920) 0.5\<bar> < rd 0.2"
    unfolding hoop_offset_raw
    by (simp add: edge_window_nth ball_at_sel hoop_offset_960 hoop_offset_1248 rd_02)
  from outcome_classification[OF le[of 1248] y[of 1248] t2, of half_draws]
  obtain peak2 where
    b: "analyze_trajectory (edge_window 1248) half_draws =
          (if fdiv (s_y (last (edge_window 1248))) 1080 < rd 0.15
                \<and> \<bar>fsub (fdiv (s_x (last (edge_window 1248))) 1920) 0.5\<bar> < rd 0.1
                \<and> int peak2 < int (length (edge_window 1248)) - 2
           then Inr ((True, ''make''), half_draws)
           else if fdiv (s_y (last (edge_window 1248))) 1080 > rd 0.2
                     \<or> \<bar>fsub (fdiv (s_x (last (edge_window 1248))) 1920) 0.5\<bar> > rd 0.15
           then Inr ((True, ''miss''), half_draws)
           else Inr ((True, if draws half_draws (pos half_draws) > rd 0.45 then ''make'' else ''miss''),
                     half_draws\<lparr>pos := pos half_draws + 1\<rparr>))"
    by (elim exE conjE)
  have B: "analyze_trajectory (edge_window 1248) half_draws = Inr ((True, ''miss''), half_draws)"
    unfolding b hoop_offset_raw
    by (simp add: edge_window_nth ball_at_sel hoop_offset_1248 fdiv_100_1080 rd_015 rd_01 rd_02)
  have B1: "\<bar>fsub (fdiv 1248 1920) 0.5\<bar> > rd 0.15"
    unfolding hoop_offset_raw by (simp add: hoop_offset_1248 rd_015)
  have B2: "\<not> \<bar>1248 / 1920 - 0.5\<bar> > (0.15 :: real)" by simp
  have lh: "5 \<le> length hanging_shot" by (simp add: hanging_shot_nth)
  have yh: "s_y (hanging_shot ! 0) > s_y (hanging_shot ! 1)"
    "s_y (hanging_shot ! 1) > s_y (hanging_shot ! 2)"
    "s_y (hanging_shot ! 2) > s_y (hanging_shot ! 3)"
    by (simp_all add: hanging_shot_nth ball_at_sel)
  have t3: "\<bar>fsub (fdiv (s_x (last hanging_shot)) 1920) 0.5\<bar>
              < \<bar>fsub (fdiv (s_x (hanging_shot ! 0)) 1920) 0.5\<bar>
           \<or> \<bar>fsub (fdiv (s_x (last hanging_shot)) 1920) 0.5\<bar> < rd 0.2"
    unfolding hoop_offset_raw
    by (simp add: hanging_shot_nth ball_at_sel hoop_offset_960 rd_02)
  from outcome_classification[OF lh yh t3, of half_draws]
  obtain peak3 where
    c: "analyze_trajectory hanging_shot half_draws =
          (if fdiv (s_y (last hanging_shot)) 1080 < rd 0.15
                \<and> \<bar>fsub (fdiv (s_x (last hanging_shot)) 1920) 0.5\<bar> < rd 0.1
                \<and> int peak3 < int (length hanging_shot) - 2
           then Inr ((True, ''make''), half_draws)
           else if fdiv (s_y (last hanging_shot)) 1080 > rd 0.2
                     \<or> \<bar>fsub (fdiv (s_x (last hanging_shot)) 1920) 0.5\<bar> > rd 0.15
           then Inr ((True, ''miss''), half_draws)
           else Inr ((True, if draws half_draws (pos half_draws) > rd 0.45 then ''make'' else ''miss''),
                     half_draws\<lparr>pos := pos half_draws + 1\<rparr>))"
    by (elim exE conjE)
  have C: "analyze_trajectory hanging_shot half_draws = Inr ((True, ''make''), half_draws\<lparr>pos := 1\<rparr>)"
    unfolding c hoop_offset_raw
    by (simp add: hanging_shot_nth ball_at_sel hoop_offset_960 fdiv_189_1080 rd_015 rd_01 rd_02
          rd_045 half_draws_def)
  have D: "draws half_draws (pos half_draws) > rd 0.45" by (simp add: half_draws_def rd_045)
  from A pk[of 1152] A1 A2 B B1 B2 C D show ?thesis by (intro conjI)
qed

subsection \<open>The scan of the ball stream\<close>

declare scan.simps [simp del]

lemma window_length:
  "int i < int (length t) - 5 \<Longrightarrow> 5 \<le> length (take 15 (drop i t))"
  by simp

lemma shot_attempt_nonempty: "shot_attempt w \<Longrightarrow> w \<noteq> []"
  by (auto simp: shot_attempt_def)

lemma scan_stop:
  "\<not> int i < int (length t) - 5 \<Longrightarrow> scan t i sid shots g = Inr (shots, g)"
  by (subst scan.simps) simp

lemma scan_skip:
  assumes "int i < int (length t) - 5" "\<not> shot_attempt (take 15 (drop i t))"
  shows "scan t i sid shots g = scan t (i + 1) sid shots g"
  by (subst scan.simps) (simp add: assms analyze_trajectory_eq Let_def)

lemma scan_shot:
  assumes "int i < int (length t) - 5" "shot_attempt (take 15 (drop i t))"
  shows "scan t i sid shots g =
     scan t (i + length (take 15 (drop i t))) (sid + 1)
       (shots @ [window_shot sid (take 15 (drop i t)) (fst (classify (take 15 (drop i t)) g))
                   (get_zone (s_x (hd (take 15 (drop i t)))) (s_y (hd (take 15 (drop i t)))))
                   (shot_conf (take 15 (drop i t)))])
       (snd (classify (take 15 (drop i t)) g))"
proof -
  have ne: "take 15 (drop i t) \<noteq> []" using assms(2) by (rule shot_attempt_nonempty)
  have l: "5 \<le> length (take 15 (drop i t))" using assms(1) by (rule window_length)
  show ?thesis
    by (subst scan.simps)
       (simp only: assms l analyze_trajectory_eq calculate_shot_confidence_eq[OF ne] Let_def
          if_True sum.case prod.case fst_conv snd_conv)
qed

lemma classify_rng:
  "pos g \<le> pos (snd (classify w g))" "draws (snd (classify w g)) = draws g"
  by (simp_all add: classify_def)

lemma classify_no_draw:
  assumes "pos (snd (classify w g)) \<le> pos g"
  shows "snd (classify w g) = g" "classify w g2 = (fst (classify w g), g2)"
  using assms by (simp_all add: classify_def split: if_splits)

lemma trajectory_window_shot: "trajectory (window_shot sid w oc z c) = [] \<longleftrightarrow> w = []"
  by (simp add: window_shot_def)

lemma scan_result:
  "\<exists>new g'. scan t i sid shots g = Inr (shots @ new, g')
     \<and> pos g \<le> pos g' \<and> draws g' = draws g
     \<and> (new = [] \<longleftrightarrow> (\<forall>j\<ge>i. int j < int (length t) - 5 \<longrightarrow> \<not> shot_attempt (take 15 (drop j t))))
     \<and> (new = [] \<longrightarrow> g' = g)
     \<and> list_all (\<lambda>s. trajectory s \<noteq> []) new"
proof (induction "length t - i" arbitrary: i sid shots g rule: less_induct)
  case less
  show ?case
  proof (cases "int i < int (length t) - 5")
    case False
    have "scan t i sid shots g = Inr (shots @ [], g)" using False by (simp add: scan_stop)
    moreover have "\<forall>j\<ge>i. int j < int (length t) - 5 \<longrightarrow> \<not> shot_attempt (take 15 (drop j t))"
      using False by auto
    ultimately show ?thesis by (intro exI[of _ "[]"] exI[of _ g]) simp
  next
    case True
    show ?thesis
    proof (cases "shot_attempt (take 15 (drop i t))")
      case False
      have dec: "length t - (i + 1) < length t - i" using True by simp
      from less[OF dec, of sid shots g] obtain new g' where
        r: "scan t (i + 1) sid shots g = Inr (shots @ new, g')" and
        m: "pos g \<le> pos g'" "draws g' = draws g" and
        e: "new = [] \<longleftrightarrow> (\<forall>j\<ge>i + 1. int j < int (length t) - 5 \<longrightarrow> \<not> shot_attempt (take 15 (drop j t)))" and
        u: "new = [] \<longrightarrow> g' = g" and
        tr: "list_all (\<lambda>s. trajectory s \<noteq> []) new"
        by (elim exE conjE)
      have s: "scan t i sid shots g = Inr (shots @ new, g')"
        using scan_skip[OF True False] r by simp
      have "(\<forall>j\<ge>i. int j < int (length t) - 5 \<longrightarrow> \<not> shot_attempt (take 15 (drop j t)))
            \<longleftrightarrow> (\<forall>j\<ge>i + 1. int j < int (length t) - 5 \<longrightarrow> \<not> shot_attempt (take 15 (drop j t)))"
      proof (intro iffI allI impI)
        fix j assume a: "\<forall>j\<ge>i. int j < int (length t) - 5 \<longrightarrow> \<not> shot_attempt (take 15 (drop j t))"
          and "i + 1 \<le> j" "int j < int (length t) - 5"
        then show "\<not> shot_attempt (take 15 (drop j t))" by simp
      next
        fix j assume a: "\<forall>j\<ge>i + 1. int j < int (length t) - 5 \<longrightarrow> \<not> shot_attempt (take 15 (drop j t))"
          and j: "i \<le> j" "int j < int (length t) - 5"
        show "\<not> shot_attempt (take 15 (drop j t))"
        proof (cases "j = i")
          case True then show ?thesis using False by simp
        next
          case False then have "i + 1 \<le> j" using j(1) by simp
          then show ?thesis using a j(2) by blast
        qed
      qed
      with e have e': "new = [] \<longleftrightarrow> (\<forall>j\<ge>i. int j < int (length t) - 5 \<longrightarrow> \<not> shot_attempt (take 15 (drop j t)))"
        by simp
      from s m e' u tr show ?thesis by blast
    next
      case sa: True
      define w where "w = take 15 (drop i t)"
      define sh where "sh = window_shot sid w (fst (classify w g)) (get_zone (s_x (hd w)) (s_y (hd w))) (shot_conf w)"
      have wl: "5 \<le> length w" unfolding w_def using True by (rule window_length)
      have dec: "length t - (i + length w) < length t - i" using True wl by simp
      from less[OF dec, of "sid + 1" "shots @ [sh]" "snd (classify w g)"] obtain new g' where
        r: "scan t (i + length w) (sid + 1) (shots @ [sh]) (snd (classify w g)) = Inr ((shots @ [sh]) @ new, g')" and
        m: "pos (snd (classify w g)) \<le> pos g'" "draws g' = draws (snd (classify w g))" and
        tr: "list_all (\<lambda>s. trajectory s \<noteq> []) new"
        by (elim exE conjE)
      have s: "scan t i sid shots g = Inr (shots @ (sh # new), g')"
        using scan_shot[OF True sa, of sid shots g] r unfolding w_def[symmetric] sh_def[symmetric] by simp
      have m1: "pos g \<le> pos g'" using m(1) classify_rng(1)[of g w] by simp
      have m2: "draws g' = draws g" using m(2) classify_rng(2)[of w g] by simp
      have "trajectory sh \<noteq> []" using wl unfolding sh_def by (auto simp: trajectory_window_shot)
      with tr have tr': "list_all (\<lambda>s. trajectory s \<noteq> []) (sh # new)" by simp
      have ne: "\<not> (\<forall>j\<ge>i. int j < int (length t) - 5 \<longrightarrow> \<not> shot_attempt (take 15 (drop j t)))"
        using True sa by blast
      show ?thesis
        using s m1 m2 tr' ne by (intro exI[of _ "sh # new"] exI[of _ g']) simp
    qed
  qed
qed

lemma scan_rng_independent:
  "scan t i sid shots g = Inr (shots', g) \<Longrightarrow> scan t i sid shots g2 = Inr (shots', g2)"
proof (induction "length t - i" arbitrary: i sid shots g2 rule: less_induct)
  case less
  show ?case
  proof (cases "int i < int (length t) - 5")
    case False
    then show ?thesis using less.prems by (simp add: scan_stop)
  next
    case True
    show ?thesis
    proof (cases "shot_attempt (take 15 (drop i t))")
      case False
      have dec: "length t - (i + 1) < length t - i" using True by simp
      have "scan t (i + 1) sid shots g = Inr (shots', g)"
        using less.prems scan_skip[OF True False] by simp
      from less.hyps[OF dec this, of g2] show ?thesis
        using scan_skip[OF True False] by simp
    next
      case sa: True
      define w where "w = take 15 (drop i t)"
      define z where "z = get_zone (s_x (hd w)) (s_y (hd w))"
      have wl: "5 \<le> length w" unfolding w_def using True by (rule window_length)
      have dec: "length t - (i + length w) < length t - i" using True wl by simp
      have r: "scan t (i + length w) (sid + 1)
                 (shots @ [window_shot sid w (fst (classify w g)) z (shot_conf w)])
                 (snd (classify w g)) = Inr (shots', g)"
        using less.prems scan_shot[OF True sa, of sid shots g]
        unfolding w_def[symmetric] z_def[symmetric] by simp
      from scan_result[of t "i + length w" "sid + 1"
             "shots @ [window_shot sid w (fst (classify w g)) z (shot_conf w)]" "snd (classify w g)"]
      have "pos (snd (classify w g)) \<le> pos g" unfolding r by auto
      note nd = classify_no_draw[OF this]
      have r': "scan t (i + length w) (sid + 1)
                 (shots @ [window_shot sid w (fst (classify w g)) z (shot_conf w)]) g = Inr (shots', g)"
        using r unfolding nd(1) .
      from less.hyps[OF dec r', of g2]
      have "scan t (i + length w) (sid + 1)
                 (shots @ [window_shot sid w (fst (classify w g)) z (shot_conf w)]) g2 = Inr (shots', g2)" .
      then show ?thesis
        using scan_shot[OF True sa, of sid shots g2]
        unfolding w_def[symmetric] z_def[symmetric] nd(2)[of g2] by simp
    qed
  qed
qed

lemma analyze_flag: "\<exists>oc g1. analyze_trajectory w g = Inr ((shot_attempt w, oc), g1)"
  by (simp add: analyze_trajectory_eq)

lemma scan_no_ambiguous:
  "(\<forall>j\<ge>i. int j < int (length t) - 5 \<longrightarrow> shot_attempt (take 15 (drop j t))
        \<longrightarrow> clear_make (take 15 (drop j t)) \<or> clear_miss (take 15 (drop j t)))
   \<Longrightarrow> \<exists>shots'. scan t i sid shots g = Inr (shots', g)"
proof (induction "length t - i" arbitrary: i sid shots rule: less_induct)
  case less
  show ?case
  proof (cases "int i < int (length t) - 5")
    case False
    then show ?thesis by (simp add: scan_stop)
  next
    case True
    show ?thesis
    proof (cases "shot_attempt (take 15 (drop i t))")
      case False
      have dec: "length t - (i + 1) < length t - i" using True by simp
      have "\<forall>j\<ge>i + 1. int j < int (length t) - 5 \<longrightarrow> shot_attempt (take 15 (drop j t))
        \<longrightarrow> clear_make (take 15 (drop j t)) \<or> clear_miss (take 15 (drop j t))"
        using less.prems by simp
      from less.hyps[OF dec this, of sid shots] show ?thesis
        using scan_skip[OF True False] by simp
    next
      case sa: True
      define w where "w = take 15 (drop i t)"
      define z where "z = get_zone (s_x (hd w)) (s_y (hd w))"
      have wl: "5 \<le> length w" unfolding w_def using True by (rule window_length)
      have dec: "length t - (i + length w) < length t - i" using True wl by simp
      have "clear_make w \<or> clear_miss w" using less.prems True sa unfolding w_def by blast
      then have c: "snd (classify w g) = g" by (auto simp: classify_def)
      have "\<forall>j\<ge>i + length w. int j < int (length t) - 5 \<longrightarrow> shot_attempt (take 15 (drop j t))
        \<longrightarrow> clear_make (take 15 (drop j t)) \<or> clear_miss (take 15 (drop j t))"
        using less.prems by simp
      from less.hyps[OF dec this, of "sid + 1" "shots @ [window_shot sid w (fst (classify w g)) z (shot_conf w)]"]
      show ?thesis
        using scan_shot[OF True sa, of sid shots g]
        unfolding w_def[symmetric] z_def[symmetric] c by simp
    qed
  qed
qed

subsection \<open>Values of the confidence\<close>

lemma cumsum_zone_weights:
  "cumsum zone_weights = [3602879701896397 / 18014398509481984, 3602879701896397 / 9007199254740992, 2476979795053773 / 4503599627370496, 6305039478318695 / 9007199254740992, 3602879701896397 / 4503599627370496, 8106479329266893 / 9007199254740992, 1]"
proof -
  have h0: "rd (1 / 5) = 3602879701896397 / 18014398509481984"
    by (subst rd_eval[where e = "-3"]) (simp_all add: round_half_even_def)
  have h1: "rd (3 / 20) = 5404319552844595 / 36028797018963968"
    by (subst rd_eval[where e = "-3"]) (simp_all add: round_half_even_def)
  have h2: "rd (1 / 10) = 3602879701896397 / 36028797018963968"
    by (subst rd_eval[where e = "-4"]) (simp_all add: round_half_even_def)
  have h3: "fadd (3602879701896397 / 18014398509481984) (3602879701896397 / 18014398509481984) = 3602879701896397 / 9007199254740992"
    unfolding fadd_def by (subst rd_eval[where e = "-2"]) (simp_all add: round_half_even_def)
  have h4: "fadd (3602879701896397 / 9007199254740992) (5404319552844595 / 36028797018963968) = 2476979795053773 / 4503599627370496"
    unfolding fadd_def by (subst rd_eval[where e = "-1"]) (simp_all add: round_half_even_def)
  have h5: "fadd (2476979795053773 / 4503599627370496) (5404319552844595 / 36028797018963968) = 6305039478318695 / 9007199254740992"
    unfolding fadd_def by (subst rd_eval[where e = "-1"]) (simp_all add: round_half_even_def)
  have h6: "fadd (6305039478318695 / 9007199254740992) (3602879701896397 / 36028797018963968) = 3602879701896397 / 4503599627370496"
    unfolding fadd_def by (subst rd_eval[where e = "-1"]) (simp_all add: round_half_even_def)
  have h7: "fadd (3602879701896397 / 4503599627370496) (3602879701896397 / 36028797018963968) = 8106479329266893 / 9007199254740992"
    unfolding fadd_def by (subst rd_eval[where e = "-1"]) (simp_all add: round_half_even_def)
  have h8: "fadd (8106479329266893 / 9007199254740992) (3602879701896397 / 36028797018963968) = 1"
    unfolding fadd_def by (subst rd_eval[where e = "0"]) (simp_all add: round_half_even_def)
  show ?thesis
    by (simp add: cumsum_def zone_weights_def h0 h1 h2 h3 h4 h5 h6 h7 h8)
qed

lemma shot_conf_1152:
  assumes "length w = 10" "s_x (last w) = 1152"
  shows "shot_conf w = rd 0.9"
proof -
  have h0: "rd (7 / 10) = 3152519739159347 / 4503599627370496"
    by (subst rd_eval[where e = "-1"]) (simp_all add: round_half_even_def)
  have h1: "rd (3 / 20) = 5404319552844595 / 36028797018963968"
    by (subst rd_eval[where e = "-3"]) (simp_all add: round_half_even_def)
  have h2: "fdiv 10 15 = 6004799503160661 / 9007199254740992"
    unfolding fdiv_def by (subst rd_eval[where e = "-1"]) (simp_all add: round_half_even_def)
  have h3: "fdiv 1152 1920 = 5404319552844595 / 9007199254740992"
    unfolding fdiv_def by (subst rd_eval[where e = "-1"]) (simp_all add: round_half_even_def)
  have h4: "fsub (5404319552844595 / 9007199254740992) (1 / 2) = 900719925474099 / 9007199254740992"
    unfolding fsub_def by (subst rd_eval[where e = "-4"]) (simp_all add: round_half_even_def)
  have h5: "fsub (5404319552844595 / 36028797018963968) (900719925474099 / 9007199254740992) = 1801439850948199 / 36028797018963968"
    unfolding fsub_def by (subst rd_eval[where e = "-5"]) (simp_all add: round_half_even_def)
  have h6: "fadd (3152519739159347 / 4503599627370496) (5404319552844595 / 36028797018963968) = 7656119366529843 / 9007199254740992"
    unfolding fadd_def by (subst rd_eval[where e = "-1"]) (simp_all add: round_half_even_def)
  have h7: "fadd (7656119366529843 / 9007199254740992) (1801439850948199 / 36028797018963968) = 8106479329266893 / 9007199254740992"
    unfolding fadd_def by (subst rd_eval[where e = "-1"]) (simp_all add: round_half_even_def)
  have h8: "rd (49 / 50) = 2206763817411543 / 2251799813685248"
    by (subst rd_eval[where e = "-1"]) (simp_all add: round_half_even_def)
  have h9: "rd (9 / 10) = 8106479329266893 / 9007199254740992"
    by (subst rd_eval[where e = "-1"]) (simp_all add: round_half_even_def)
  show ?thesis
    unfolding shot_conf_def assms by (simp add: hoop_offset_def h0 h1 h2 h3 h4 h5 h6 h7 h8 h9)
qed

lemma shot_conf_1248:
  assumes "length w = 10" "s_x (last w) = 1248"
  shows "shot_conf w = rd 0.85"
proof -
  have h0: "rd (7 / 10) = 3152519739159347 / 4503599627370496"
    by (subst rd_eval[where e = "-1"]) (simp_all add: round_half_even_def)
  have h1: "rd (3 / 20) = 5404319552844595 / 36028797018963968"
    by (subst rd_eval[where e = "-3"]) (simp_all add: round_half_even_def)
  have h2: "fdiv 10 15 = 6004799503160661 / 9007199254740992"
    unfolding fdiv_def by (subst rd_eval[where e = "-1"]) (simp_all add: round_half_even_def)
  have h3: "fdiv 1248 1920 = 5854679515581645 / 9007199254740992"
    unfolding fdiv_def by (subst rd_eval[where e = "-1"]) (simp_all add: round_half_even_def)
  have h4: "fsub (5854679515581645 / 9007199254740992) (1 / 2) = 1351079888211149 / 9007199254740992"
    unfolding fsub_def by (subst rd_eval[where e = "-3"]) (simp_all add: round_half_even_def)
  have h5: "fsub (5404319552844595 / 36028797018963968) (1351079888211149 / 9007199254740992) = - (1 / 36028797018963968)"
    unfolding fsub_def by (subst rd_eval[where e = "-55"]) (simp_all add: round_half_even_def)
  have h6: "fadd (3152519739159347 / 4503599627370496) (5404319552844595 / 36028797018963968) = 7656119366529843 / 9007199254740992"
    unfolding fadd_def by (subst rd_eval[where e = "-1"]) (simp_all add: round_half_even_def)
  have h7: "fadd (7656119366529843 / 9007199254740992) 0 = 7656119366529843 / 9007199254740992"
    unfolding fadd_def by (subst rd_eval[where e = "-1"]) (simp_all add: round_half_even_def)
  have h8: "rd (49 / 50) = 2206763817411543 / 2251799813685248"
    by (subst rd_eval[where e = "-1"]) (simp_all add: round_half_even_def)
  have h9: "rd (17 / 20) = 7656119366529843 / 9007199254740992"
    by (subst rd_eval[where e = "-1"]) (simp_all add: round_half_even_def)
  show ?thesis
    unfolding shot_conf_def assms by (simp add: hoop_offset_def h0 h1 h2 h3 h4 h5 h6 h7 h8 h9)
qed

lemma confidence_values:
  "rd (3602879701896397 / 36028797018963968) = 3602879701896397 / 36028797018963968"
  "rd (32451855365842670876875751109427 / 324518553658426726783156020576256) = 7205759403792793 / 72057594037927936"
  "rd (7205759403792793 / 72057594037927936) = 7205759403792793 / 72057594037927936"
  "rd (7656119366529843 / 9007199254740992) = 7656119366529843 / 9007199254740992"
  "rd (68454714336031537 / 72057594037927936) = 4278419646001971 / 4503599627370496"
  "(3602879701896397 / 36028797018963968) * (1 - 1 / 2 ^ 53) = (32451855365842670876875751109427 / 324518553658426726783156020576256 :: real)"
  subgoal by (subst rd_eval[where e = "-4"]) (simp_all add: round_half_even_def)
  subgoal by (subst rd_eval[where e = "-4"]) (simp_all add: round_half_even_def)
  subgoal by (subst rd_eval[where e = "-4"]) (simp_all add: round_half_even_def)
  subgoal by (subst rd_eval[where e = "-1"]) (simp_all add: round_half_even_def)
  subgoal by (subst rd_eval[where e = "-1"]) (simp_all add: round_half_even_def)
  subgoal by simp
  done

lemma rd_1: "rd 1 = 1"
  by (subst rd_eval[where e = "0"]) (simp_all add: round_half_even_def)

subsection \<open>The synthetic set\<close>

lemma draws_random: "draws (snd (random g)) = draws g"
  by (simp add: random_def)

lemma draws_uniform: "draws (snd (uniform a b g)) = draws g"
  by (simp add: uniform_def random_def)

lemma draws_offset_position: "draws (snd (offset_position cx dx cy dy g)) = draws g"
  by (simp add: offset_position_def case_prod_beta draws_uniform)

lemma draws_mock_position: "draws (snd (mock_position z g)) = draws g"
  by (simp add: mock_position_def draws_offset_position)

lemma draws_choice: "draws (snd (choice as ps g)) = draws g"
  by (simp add: choice_def random_def Let_def)

lemma valid_rng_draws: "draws g' = draws g \<Longrightarrow> valid_rng g \<Longrightarrow> valid_rng g'"
  by (simp add: valid_rng_def)

lemma valid_rng_bounds:
  assumes "valid_rng g"
  shows "0 \<le> draws g n" "draws g n \<le> 1 - 1 / 2 ^ 53" "draws g n < 1"
proof -
  from assms obtain k where k: "k < 2 ^ 53" and d: "draws g n = real k / 2 ^ 53"
    unfolding valid_rng_def by blast
  from k have "k \<le> 9007199254740991" by simp
  then have "real k \<le> real 9007199254740991" by (simp only: of_nat_le_iff)
  then have r: "real k \<le> 9007199254740991" by simp
  show "0 \<le> draws g n" unfolding d by simp
  show "draws g n \<le> 1 - 1 / 2 ^ 53" unfolding d using r by simp
  show "draws g n < 1" unfolding d using r by simp
qed

lemma takeWhile_short:
  "xs \<noteq> [] \<Longrightarrow> \<not> P (last xs) \<Longrightarrow> length (takeWhile P xs) < length xs"
  by (induction xs) (auto split: if_splits)

lemma choice_mock:
  assumes "valid_rng g"
  shows "\<exists>z. fst (choice mock_zones zone_weights g) = Inr z"
proof -
  define u where "u = draws g (pos g)"
  have u1: "u < 1" unfolding u_def using assms by (rule valid_rng_bounds(3))
  define cs where "cs = cumsum zone_weights"
  define cdf where "cdf = map (\<lambda>c. fdiv c (last cs)) cs"
  have l: "last cs = 1" and csne: "cs \<noteq> []" unfolding cs_def cumsum_zone_weights by simp_all
  have len: "length cdf = 7" unfolding cdf_def cs_def cumsum_zone_weights by simp
  have ne: "cdf \<noteq> []" using len by auto
  have "last cdf = fdiv (last cs) (last cs)" unfolding cdf_def using csne by (simp add: last_map)
  then have lc: "last cdf = 1" unfolding l by (simp add: fdiv_def rd_1)
  have "\<not> last cdf \<le> u" using lc u1 by simp
  from takeWhile_short[of cdf "\<lambda>c. c \<le> u", OF ne this]
  have idx: "searchsorted_right cdf u < 7" unfolding searchsorted_right_def len .
  have "fst (choice mock_zones zone_weights g) =
          (if searchsorted_right cdf u < length mock_zones
           then Inr (mock_zones ! searchsorted_right cdf u) else Inl IndexError)"
    by (simp add: choice_def random_def Let_def cdf_def cs_def u_def)
  moreover have "length mock_zones = 7" by (simp add: mock_zones_def)
  ultimately show ?thesis using idx by simp
qed

lemma uniform_confidence:
  assumes "valid_rng g"
  shows "rd 0.85 \<le> fadd (rd 0.85) (fst (uniform 0 (rd 0.1) g))"
    "fadd (rd 0.85) (fst (uniform 0 (rd 0.1) g)) \<le> rd 0.95"
proof -
  define u where "u = draws g (pos g)"
  have u0: "0 \<le> u" and u1: "u \<le> 1 - 1 / 2 ^ 53"
    unfolding u_def using valid_rng_bounds[OF assms] by simp_all
  define v where "v = rd ((3602879701896397 / 36028797018963968) * u)"
  have "(3602879701896397 / 36028797018963968) * u \<le> (3602879701896397 / 36028797018963968) * (1 - 1 / 2 ^ 53)" using u1 by (intro mult_left_mono) simp_all
  then have "rd ((3602879701896397 / 36028797018963968) * u) \<le> rd ((3602879701896397 / 36028797018963968) * (1 - 1 / 2 ^ 53))" by (rule rd_mono)
  then have v1: "v \<le> (7205759403792793 / 72057594037927936)" unfolding v_def confidence_values(6) confidence_values(2) .
  have "0 \<le> (3602879701896397 / 36028797018963968) * u" using u0 by simp
  then have v0: "0 \<le> v" unfolding v_def by (rule rd_nonneg)
  define c where "c = rd (0 + v)"
  have c0: "0 \<le> c" unfolding c_def using v0 by (intro rd_nonneg) simp
  have "rd (0 + v) \<le> rd (7205759403792793 / 72057594037927936)" using v1 by (intro rd_mono) simp
  then have c1: "c \<le> (7205759403792793 / 72057594037927936)" unfolding c_def confidence_values(3) .
  have e: "fst (uniform 0 (rd 0.1) g) = c"
    by (simp add: uniform_def random_def c_def v_def u_def fadd_def fmul_def fsub_def rd_01
          confidence_values(1))
  have "rd ((7656119366529843 / 9007199254740992) + 0) \<le> rd ((7656119366529843 / 9007199254740992) + c)" using c0 by (intro rd_mono) simp
  then have lo: "(7656119366529843 / 9007199254740992) \<le> rd ((7656119366529843 / 9007199254740992) + c)" by (simp add: confidence_values(4))
  have "rd ((7656119366529843 / 9007199254740992) + c) \<le> rd ((7656119366529843 / 9007199254740992) + (7205759403792793 / 72057594037927936))" using c1 by (intro rd_mono) simp
  then have hi: "rd ((7656119366529843 / 9007199254740992) + c) \<le> (4278419646001971 / 4503599627370496)" by (simp add: confidence_values(5))
  show "rd 0.85 \<le> fadd (rd 0.85) (fst (uniform 0 (rd 0.1) g))"
    unfolding e fadd_def using lo by (simp add: rd_085)
  show "fadd (rd 0.85) (fst (uniform 0 (rd 0.1) g)) \<le> rd 0.95"
    unfolding e fadd_def using hi by (simp add: rd_085 rd_095)
qed

lemma mock_shot_ok:
  assumes "valid_rng g"
  shows "\<exists>s g'. mock_shot i g = Inr (s, g') \<and> shot_id s = int i + 1 \<and> mock_ok s
           \<and> draws g' = draws g"
proof -
  obtain z where z: "fst (choice mock_zones zone_weights g) = Inr z"
    using choice_mock[OF assms] by blast
  define g1 where "g1 = snd (choice mock_zones zone_weights g)"
  define g2 where "g2 = snd (mock_position z g1)"
  define g3 where "g3 = snd (random g2)"
  have c: "choice mock_zones zone_weights g = (Inr z, g1)"
    using z by (simp add: g1_def prod_eq_iff)
  have d1: "draws g1 = draws g" unfolding g1_def by (rule draws_choice)
  have d2: "draws g2 = draws g" unfolding g2_def using d1 by (simp add: draws_mock_position)
  have d3: "draws g3 = draws g" unfolding g3_def using d2 by (simp add: draws_random)
  have v3: "valid_rng g3" using d3 assms by (rule valid_rng_draws)
  have d4: "draws (snd (uniform 0 (rd 0.1) g3)) = draws g" using d3 by (simp add: draws_uniform)
  note u = uniform_confidence[OF v3]
  show ?thesis
    unfolding mock_shot_def c
    using u d4
    by (simp add: case_prod_beta Let_def g2_def[symmetric] g3_def[symmetric] mock_ok_def)
qed

lemma mock_loop_ok:
  assumes "valid_rng g"
  shows "\<exists>new g'. mock_loop idxs shots g = Inr (shots @ new, g')
           \<and> map shot_id new = map (\<lambda>i. int i + 1) idxs \<and> list_all mock_ok new
           \<and> draws g' = draws g"
  using assms
proof (induction idxs arbitrary: shots g)
  case Nil
  show ?case by simp
next
  case (Cons i idxs)
  from mock_shot_ok[OF Cons.prems, of i] obtain s g1 where
    m: "mock_shot i g = Inr (s, g1)" and sid: "shot_id s = int i + 1" and ok: "mock_ok s" and
    d: "draws g1 = draws g"
    by (elim exE conjE)
  have v: "valid_rng g1" using d Cons.prems by (rule valid_rng_draws)
  from Cons.IH[OF v, of "shots @ [s]"] obtain new g' where
    r: "mock_loop idxs (shots @ [s]) g1 = Inr ((shots @ [s]) @ new, g')" and
    ids: "map shot_id new = map (\<lambda>i. int i + 1) idxs" and oks: "list_all mock_ok new" and
    d': "draws g' = draws g1"
    by (elim exE conjE)
  have "mock_loop (i # idxs) shots g = Inr (shots @ (s # new), g')"
    using m r by simp
  moreover have "map shot_id (s # new) = map (\<lambda>i. int i + 1) (i # idxs)" using sid ids by simp
  moreover have "list_all mock_ok (s # new)" using ok oks by simp
  moreover have "draws g' = draws g" using d d' by simp
  ultimately show ?case by blast
qed

lemma mock_loop_trajectories:
  "mock_loop idxs shots g = Inr (res, g') \<Longrightarrow> list_all (\<lambda>s. trajectory s = []) shots
     \<Longrightarrow> list_all (\<lambda>s. trajectory s = []) res"
proof (induction idxs arbitrary: shots g)
  case Nil
  then show ?case by simp
next
  case (Cons i idxs)
  from Cons.prems(1) obtain s g1 where
    m: "mock_shot i g = Inr (s, g1)" and r: "mock_loop idxs (shots @ [s]) g1 = Inr (res, g')"
    by (auto split: sum.splits)
  from m have "trajectory s = []"
    by (auto simp: mock_shot_def case_prod_beta Let_def split: sum.splits)
  with Cons.prems(2) have "list_all (\<lambda>s. trajectory s = []) (shots @ [s])" by simp
  from Cons.IH[OF r this] show ?case .
qed

lemma mock_ids: "map (\<lambda>i. int i + 1) [0..<20] = [1..20]"
  by code_simp

lemma generate_mock_shots_ok:
  assumes "valid_rng g"
  shows "\<exists>ms g'. generate_mock_shots g = Inr (ms, g') \<and> length ms = 20
           \<and> map shot_id ms = [1..20] \<and> list_all mock_ok ms \<and> draws g' = draws g"
proof -
  from mock_loop_ok[OF assms, of "[0..<20]" "[]"] obtain new g' where
    r: "mock_loop [0..<20] [] g = Inr ([] @ new, g')" and
    ids: "map shot_id new = map (\<lambda>i. int i + 1) [0..<20]" and oks: "list_all mock_ok new" and
    d: "draws g' = draws g"
    by (elim exE conjE)
  have "length (map shot_id new) = length (map (\<lambda>i. int i + 1) [0..<20])" using ids by simp
  then have l: "length new = 20" by simp
  have "generate_mock_shots g = Inr (new, g')" using r by (simp add: generate_mock_shots_def)
  with l ids oks d show ?thesis unfolding mock_ids by blast
qed

lemma detect_shots_cases:
  "detect_shots trks g =
     (if length (ball trks) < 10 then generate_mock_shots g
      else (case scan (ball trks) 0 1 [] g of
              Inl e \<Rightarrow> Inl e
            | Inr r \<Rightarrow> if fst r = [] then generate_mock_shots (snd r) else Inr r))"
  by (simp add: detect_shots_def Let_def case_prod_beta split: sum.splits)

lemma detect_shots_nonempty:
  assumes "valid_rng g"
  shows "\<exists>ms g'. detect_shots trks g = Inr (ms, g') \<and> ms \<noteq> []"
proof -
  from scan_result[of "ball trks" 0 1 "[]" g] obtain new g1 where
    s: "scan (ball trks) 0 1 [] g = Inr (new, g1)" and d: "draws g1 = draws g"
    by auto
  have v1: "valid_rng g1" using d assms by (rule valid_rng_draws)
  from generate_mock_shots_ok[OF assms] obtain ms g' where
    m: "generate_mock_shots g = Inr (ms, g')" "length ms = 20" by blast
  from generate_mock_shots_ok[OF v1] obtain ms1 g1' where
    m1: "generate_mock_shots g1 = Inr (ms1, g1')" "length ms1 = 20" by blast
  have "ms \<noteq> []" "ms1 \<noteq> []" using m(2) m1(2) by auto
  then show ?thesis
    unfolding detect_shots_cases s using m(1) m1(1) by auto
qed

lemma replicate_no_attempt: "\<not> shot_attempt (replicate n s)"
proof (cases "5 \<le> n")
  case True
  then show ?thesis by (simp add: shot_attempt_hoop)
next
  case False
  then show ?thesis by (simp add: shot_attempt_def)
qed

lemma flat_no_attempt: "\<not> shot_attempt (take 15 (drop j (ball (flat_track n))))"
  by (simp add: flat_track_def replicate_no_attempt)

lemma flat_scan: "scan (ball (flat_track n)) 0 1 [] g = Inr ([], g)"
proof -
  from scan_result[of "ball (flat_track n)" 0 1 "[]" g] obtain new g' where
    s: "scan (ball (flat_track n)) 0 1 [] g = Inr ([] @ new, g')" and
    e: "new = [] \<longleftrightarrow> (\<forall>j\<ge>0. int j < int (length (ball (flat_track n))) - 5
                        \<longrightarrow> \<not> shot_attempt (take 15 (drop j (ball (flat_track n)))))" and
    u: "new = [] \<longrightarrow> g' = g"
    by (elim exE conjE)
  have "new = []" unfolding e using flat_no_attempt by blast
  with s u show ?thesis by simp
qed

lemma valid_half_draws: "valid_rng half_draws"
proof -
  have "(2::nat) ^ 52 < 2 ^ 53 \<and> (1 / 2 :: real) = real (2 ^ 52) / 2 ^ 53" by simp
  then show ?thesis unfolding valid_rng_def half_draws_def by (auto intro: exI[of _ "2 ^ 52"])
qed

lemma rising_track_ball:
  "length (ball rising_track) = 10"
  "take 15 (drop 0 (ball rising_track)) = ball rising_track"
  "last (ball rising_track) = ball_at 9 960 108"
  "ball rising_track ! 0 = ball_at 0 960 500" "ball rising_track ! Suc 0 = ball_at 1 960 400"
  "ball rising_track ! 2 = ball_at 2 960 300" "ball rising_track ! 3 = ball_at 3 960 200"
  by (simp_all add: rising_track_def rising_shot_def)

lemma rising_track_attempt: "shot_attempt (ball rising_track)"
  by (simp add: shot_attempt_hoop rising_track_ball ball_at_sel hoop_offset_960 rd_02)

lemma rising_track_scan:
  "\<exists>sh. scan (ball rising_track) 0 1 [] g = Inr ([sh], g)"
proof -
  have c1: "int 0 < int (length (ball rising_track)) - 5" by (simp add: rising_track_ball)
  have sa: "shot_attempt (take 15 (drop 0 (ball rising_track)))"
    unfolding rising_track_ball by (rule rising_track_attempt)
  have pk: "peak_index (ball rising_track) = 4"
    by (simp add: peak_index_def rising_track_def rising_shot_def ball_at_sel)
  have cm: "clear_make (ball rising_track)"
    by (simp add: clear_make_def pk rising_track_ball ball_at_sel hoop_offset_960 fdiv_108_1080
          rd_015 rd_01)
  then have cl: "snd (classify (ball rising_track) g) = g" by (simp add: classify_def)
  have stop: "\<not> int (0 + 10) < int (length (ball rising_track)) - 5"
    by (simp add: rising_track_ball)
  show ?thesis
    using scan_shot[OF c1 sa, of 1 "[]" g] scan_stop[OF stop]
    unfolding rising_track_ball cl by simp
qed

subsection \<open>The ball last seen at a given position\<close>

lemma edge_track_ball:
  "ball (edge_track cx) = edge_window cx"
  "length (edge_window cx) = 10"
  "take 15 (drop 0 (edge_window cx)) = edge_window cx"
  by (simp_all add: edge_track_def edge_window_def)

lemma edge_attempt:
  assumes "hoop_offset cx < rd 0.2"
  shows "shot_attempt (edge_window cx)"
  using assms by (simp add: shot_attempt_hoop edge_window_nth ball_at_sel)

lemma edge_scan:
  assumes "shot_attempt (edge_window cx)"
    "clear_make (edge_window cx) \<or> clear_miss (edge_window cx)"
  shows "scan (ball (edge_track cx)) 0 1 [] g =
           Inr ([window_shot 1 (edge_window cx) (fst (classify (edge_window cx) g))
                   (get_zone 960 500) (shot_conf (edge_window cx))], g)"
proof -
  have c1: "int 0 < int (length (edge_window cx)) - 5" by (simp add: edge_track_ball)
  have sa: "shot_attempt (take 15 (drop 0 (edge_window cx)))"
    unfolding edge_track_ball by (rule assms(1))
  have cl: "snd (classify (edge_window cx) g) = g" using assms(2) by (auto simp: classify_def)
  have stop: "\<not> int (0 + 10) < int (length (edge_window cx)) - 5"
    by (simp add: edge_track_ball)
  show ?thesis
    using scan_shot[OF c1 sa, of 1 "[]" g] scan_stop[OF stop]
    unfolding edge_track_ball cl by (simp add: edge_window_nth ball_at_sel)
qed

lemma edge_1152:
  "shot_attempt (edge_window 1152)" "clear_make (edge_window 1152)"
  "fst (classify (edge_window 1152) g) = ''make''"
proof -
  show "shot_attempt (edge_window 1152)"
    by (rule edge_attempt) (simp add: hoop_offset_1152 rd_02)
  show m: "clear_make (edge_window 1152)"
    by (simp add: clear_make_def peak_index_edge edge_window_nth ball_at_sel hoop_offset_1152
          fdiv_100_1080 rd_015 rd_01)
  show "fst (classify (edge_window 1152) g) = ''make''" using m by (simp add: classify_def)
qed

lemma edge_1248:
  "shot_attempt (edge_window 1248)" "clear_miss (edge_window 1248)"
  "fst (classify (edge_window 1248) g) = ''miss''"
proof -
  show "shot_attempt (edge_window 1248)"
    by (rule edge_attempt) (simp add: hoop_offset_1248 rd_02)
  have n: "\<not> clear_make (edge_window 1248)"
    by (simp add: clear_make_def edge_window_nth ball_at_sel hoop_offset_1248 rd_01)
  show m: "clear_miss (edge_window 1248)"
    by (simp add: clear_miss_def edge_window_nth ball_at_sel hoop_offset_1248 rd_015)
  show "fst (classify (edge_window 1248) g) = ''miss''" using n m by (simp add: classify_def)
qed

lemma edge_1344:
  "shot_attempt (edge_window 1344)" "clear_miss (edge_window 1344)"
  "fst (classify (edge_window 1344) g) = ''miss''"
proof -
  show "shot_attempt (edge_window 1344)"
    by (rule edge_attempt) (simp add: hoop_offset_1344 rd_02)
  have n: "\<not> clear_make (edge_window 1344)"
    by (simp add: clear_make_def edge_window_nth ball_at_sel hoop_offset_1344 rd_01)
  show m: "clear_miss (edge_window 1344)"
    by (simp add: clear_miss_def edge_window_nth ball_at_sel hoop_offset_1344 rd_015)
  show "fst (classify (edge_window 1344) g) = ''miss''" using n m by (simp add: classify_def)
qed

lemma get_zone_960_500: "get_zone 960 500 = ''top-key''"
  by (simp add: get_zone_def zones_def in_bounds_def zone_bounds fdiv_960_1920 fdiv_500_1080)

lemma window_shot_sel:
  "shot_id (window_shot sid w oc z c) = sid" "outcome (window_shot sid w oc z c) = oc"
  "zone (window_shot sid w oc z c) = z" "confidence (window_shot sid w oc z c) = c"
  "trajectory (window_shot sid w oc z c) = map (\<lambda>p. (s_x p, s_y p)) w"
  by (simp_all add: window_shot_def)

subsection \<open>Properties of the detector\<close>

text \<open>
  C6. A ball stream of fewer than 10 samples gives the synthetic set. A stream of at least
  10 samples is scanned, and the scan detects no shot exactly when no window of up to 15
  samples starting at an index i with i < len - 5 is a shot attempt; then the scan has drawn
  nothing and the detector gives the synthetic set. When the scan detects a shot, the detector
  returns the detected shots, each with a trajectory that is not empty, whereas every shot of
  the synthetic set has the empty trajectory. With draws of the generator the detector
  neither raises nor returns an empty list. The flag \<^verbatim>\<open>is_shot\<close> of
  \<^verbatim>\<open>_analyze_trajectory\<close> is \<open>shot_attempt\<close>, evaluated on the doubles the code computes.
\<close>

theorem fallback_condition:
  "(length (ball trks) < 10 \<longrightarrow> detect_shots trks g = generate_mock_shots g)
   \<and> (10 \<le> length (ball trks) \<longrightarrow>
        (\<exists>new g'. scan (ball trks) 0 1 [] g = Inr (new, g')
           \<and> (new = [] \<longleftrightarrow>
                 (\<forall>j. int j < int (length (ball trks)) - 5
                        \<longrightarrow> \<not> shot_attempt (take 15 (drop j (ball trks)))))
           \<and> (new = [] \<longrightarrow> detect_shots trks g = generate_mock_shots g)
           \<and> (new \<noteq> [] \<longrightarrow> detect_shots trks g = Inr (new, g')
                            \<and> list_all (\<lambda>s. trajectory s \<noteq> []) new)))
   \<and> (\<forall>ms g1. generate_mock_shots g = Inr (ms, g1) \<longrightarrow> list_all (\<lambda>s. trajectory s = []) ms)
   \<and> (valid_rng g \<longrightarrow> (\<exists>ms g1. detect_shots trks g = Inr (ms, g1) \<and> ms \<noteq> []))
   \<and> (\<exists>oc g1. analyze_trajectory w g = Inr ((shot_attempt w, oc), g1))"
proof -
  have a: "length (ball trks) < 10 \<longrightarrow> detect_shots trks g = generate_mock_shots g"
    by (simp add: detect_shots_cases)
  have b: "\<exists>new g'. scan (ball trks) 0 1 [] g = Inr (new, g')
           \<and> (new = [] \<longleftrightarrow>
                 (\<forall>j. int j < int (length (ball trks)) - 5
                        \<longrightarrow> \<not> shot_attempt (take 15 (drop j (ball trks)))))
           \<and> (new = [] \<longrightarrow> detect_shots trks g = generate_mock_shots g)
           \<and> (new \<noteq> [] \<longrightarrow> detect_shots trks g = Inr (new, g')
                            \<and> list_all (\<lambda>s. trajectory s \<noteq> []) new)"
    if len: "10 \<le> length (ball trks)"
  proof -
    from scan_result[of "ball trks" 0 1 "[]" g] obtain new g' where
      s: "scan (ball trks) 0 1 [] g = Inr ([] @ new, g')" and
      e: "new = [] \<longleftrightarrow> (\<forall>j\<ge>0. int j < int (length (ball trks)) - 5
                        \<longrightarrow> \<not> shot_attempt (take 15 (drop j (ball trks))))" and
      u: "new = [] \<longrightarrow> g' = g" and
      tr: "list_all (\<lambda>s. trajectory s \<noteq> []) new"
      by (elim exE conjE)
    have s': "scan (ball trks) 0 1 [] g = Inr (new, g')" using s by simp
    have e': "new = [] \<longleftrightarrow> (\<forall>j. int j < int (length (ball trks)) - 5
                        \<longrightarrow> \<not> shot_attempt (take 15 (drop j (ball trks))))"
      using e by simp
    have d0: "new = [] \<longrightarrow> detect_shots trks g = generate_mock_shots g"
      using len u unfolding detect_shots_cases s' by simp
    have d1: "new \<noteq> [] \<longrightarrow> detect_shots trks g = Inr (new, g')"
      using len unfolding detect_shots_cases s' by simp
    from s' e' d0 d1 tr show ?thesis by blast
  qed
  have c: "\<forall>ms g1. generate_mock_shots g = Inr (ms, g1) \<longrightarrow> list_all (\<lambda>s. trajectory s = []) ms"
    unfolding generate_mock_shots_def using mock_loop_trajectories[of "[0..<20]" "[]" g] by simp
  have d: "valid_rng g \<longrightarrow> (\<exists>ms g1. detect_shots trks g = Inr (ms, g1) \<and> ms \<noteq> [])"
    using detect_shots_nonempty by blast
  from a b c d analyze_flag[of w g] show ?thesis by blast
qed

text \<open>
  The theorem at a stream of 9 samples, at a stream of 10 samples with no shot attempt, and
  at the stream of 10 samples whose ball is last seen at x = 1344: its first window is a shot
  attempt (the double computed for the distance from the centre is below the double of 0.2),
  and the detector returns one detected shot, a miss, not the synthetic set.
\<close>

theorem fallback_condition_witness:
  "length (ball (flat_track 9)) < 10
   \<and> detect_shots (flat_track 9) half_draws = generate_mock_shots half_draws
   \<and> 10 \<le> length (ball (flat_track 10))
   \<and> detect_shots (flat_track 10) half_draws = generate_mock_shots half_draws
   \<and> 10 \<le> length (ball (edge_track 1344))
   \<and> shot_attempt (take 15 (drop 0 (ball (edge_track 1344))))
   \<and> (\<exists>sh. detect_shots (edge_track 1344) half_draws = Inr ([sh], half_draws)
         \<and> outcome sh = ''miss'' \<and> trajectory sh \<noteq> [])
   \<and> valid_rng half_draws
   \<and> (\<exists>ms g1. detect_shots (flat_track 10) half_draws = Inr (ms, g1) \<and> ms \<noteq> []
         \<and> list_all (\<lambda>s. trajectory s = []) ms)"
proof -
  have l9: "length (ball (flat_track 9)) < 10" by (simp add: flat_track_def)
  have l10: "10 \<le> length (ball (flat_track 10))" by (simp add: flat_track_def)
  have lr: "10 \<le> length (ball (edge_track 1344))" by (simp add: edge_track_ball)
  from fallback_condition[of "flat_track 9" half_draws "[]"] l9
  have a: "detect_shots (flat_track 9) half_draws = generate_mock_shots half_draws" by blast
  from fallback_condition[of "flat_track 10" half_draws "[]"] l10 obtain new g' where
    e: "new = [] \<longleftrightarrow> (\<forall>j. int j < int (length (ball (flat_track 10))) - 5
                        \<longrightarrow> \<not> shot_attempt (take 15 (drop j (ball (flat_track 10)))))" and
    u: "new = [] \<longrightarrow> detect_shots (flat_track 10) half_draws = generate_mock_shots half_draws"
    by blast
  have "new = []" unfolding e using flat_no_attempt by blast
  with u have b: "detect_shots (flat_track 10) half_draws = generate_mock_shots half_draws" by blast
  have sa: "shot_attempt (take 15 (drop 0 (ball (edge_track 1344))))"
    unfolding edge_track_ball by (rule edge_1344(1))
  from fallback_condition[of "edge_track 1344" half_draws "[]"] lr obtain new2 g2 where
    s2: "scan (ball (edge_track 1344)) 0 1 [] half_draws = Inr (new2, g2)" and
    u2: "new2 \<noteq> [] \<longrightarrow> detect_shots (edge_track 1344) half_draws = Inr (new2, g2)
                            \<and> list_all (\<lambda>s. trajectory s \<noteq> []) new2"
    by blast
  define sh where "sh = window_shot 1 (edge_window 1344) ''miss'' (get_zone 960 500)
                          (shot_conf (edge_window 1344))"
  have "scan (ball (edge_track 1344)) 0 1 [] half_draws = Inr ([sh], half_draws)"
    unfolding sh_def using edge_scan[OF edge_1344(1), of half_draws] edge_1344(2,3) by simp
  with s2 have n2: "new2 = [sh]" "g2 = half_draws" by simp_all
  with u2 have d2: "detect_shots (edge_track 1344) half_draws = Inr ([sh], half_draws)"
    and t2: "list_all (\<lambda>s. trajectory s \<noteq> []) [sh]" by simp_all
  have "outcome sh = ''miss''" unfolding sh_def by (simp add: window_shot_sel)
  with d2 t2 have c: "\<exists>sh. detect_shots (edge_track 1344) half_draws = Inr ([sh], half_draws)
         \<and> outcome sh = ''miss'' \<and> trajectory sh \<noteq> []" by simp
  from fallback_condition[of "flat_track 10" half_draws "[]"] valid_half_draws obtain ms g1 where
    m: "detect_shots (flat_track 10) half_draws = Inr (ms, g1)" "ms \<noteq> []" and
    t: "\<forall>ms g1. generate_mock_shots half_draws = Inr (ms, g1) \<longrightarrow> list_all (\<lambda>s. trajectory s = []) ms"
    by blast
  from m(1) t b have "list_all (\<lambda>s. trajectory s = []) ms" by simp
  with m have d: "\<exists>ms g1. detect_shots (flat_track 10) half_draws = Inr (ms, g1) \<and> ms \<noteq> []
         \<and> list_all (\<lambda>s. trajectory s = []) ms" by blast
  from l9 a l10 b lr sa c valid_half_draws d show ?thesis by (intro conjI)
qed

text \<open>
  C9. The scan reaches the ambiguous branch of \<^verbatim>\<open>_analyze_trajectory\<close> exactly when it
  draws from the random source. For a stream of at least 10 samples whose scan, started in
  the state \<open>g\<close> of the random source, ends in the same state, the scan started in any state
  \<open>g2\<close> detects the same shots and leaves \<open>g2\<close> as it was; the detector's result is these
  shots, the same list whatever the seed, or the synthetic set generated from the seed when
  the list is empty. So two runs on the stream from the same seed return identical lists. The
  scan draws nothing when every shot attempt among the windows passes the first or the second
  outcome test, \<open>clear_make\<close> or \<open>clear_miss\<close>: the last conjunct reads
  \<^verbatim>\<open>_analyze_trajectory\<close> in these terms, which are evaluated on the doubles the code
  computes.
\<close>

theorem detector_deterministic:
  "(10 \<le> length (ball trks) \<and> scan (ball trks) 0 1 [] g = Inr (shots, g) \<longrightarrow>
       scan (ball trks) 0 1 [] g2 = Inr (shots, g2)
     \<and> detect_shots trks g2 = (if shots = [] then generate_mock_shots g2 else Inr (shots, g2))
     \<and> detect_shots trks g = (if shots = [] then generate_mock_shots g else Inr (shots, g))
     \<and> (shots \<noteq> [] \<longrightarrow>
           map_sum id fst (detect_shots trks g2) = map_sum id fst (detect_shots trks g)))
   \<and> ((\<forall>j. int j < int (length (ball trks)) - 5
            \<longrightarrow> shot_attempt (take 15 (drop j (ball trks)))
            \<longrightarrow> clear_make (take 15 (drop j (ball trks)))
                  \<or> clear_miss (take 15 (drop j (ball trks))))
        \<longrightarrow> (\<exists>found. scan (ball trks) 0 1 [] g = Inr (found, g)))
   \<and> analyze_trajectory w g =
        (if shot_attempt w
         then Inr ((True, if clear_make w then ''make''
                          else if clear_miss w then ''miss''
                          else if draws g (pos g) > rd 0.45 then ''make'' else ''miss''),
                   if clear_make w \<or> clear_miss w then g else g\<lparr>pos := pos g + 1\<rparr>)
         else Inr ((False, ''unknown''), g))"
proof (intro conjI impI)
  assume h: "10 \<le> length (ball trks) \<and> scan (ball trks) 0 1 [] g = Inr (shots, g)"
  then have len: "10 \<le> length (ball trks)" and s: "scan (ball trks) 0 1 [] g = Inr (shots, g)"
    by simp_all
  show s2: "scan (ball trks) 0 1 [] g2 = Inr (shots, g2)"
    using s by (rule scan_rng_independent)
  show d2: "detect_shots trks g2 = (if shots = [] then generate_mock_shots g2 else Inr (shots, g2))"
    using len unfolding detect_shots_cases s2 by simp
  show d1: "detect_shots trks g = (if shots = [] then generate_mock_shots g else Inr (shots, g))"
    using len unfolding detect_shots_cases s by simp
  assume "shots \<noteq> []"
  then show "map_sum id fst (detect_shots trks g2) = map_sum id fst (detect_shots trks g)"
    unfolding d1 d2 by simp
next
  assume "\<forall>j. int j < int (length (ball trks)) - 5
            \<longrightarrow> shot_attempt (take 15 (drop j (ball trks)))
            \<longrightarrow> clear_make (take 15 (drop j (ball trks)))
                  \<or> clear_miss (take 15 (drop j (ball trks)))"
  then have "\<forall>j\<ge>0. int j < int (length (ball trks)) - 5
            \<longrightarrow> shot_attempt (take 15 (drop j (ball trks)))
            \<longrightarrow> clear_make (take 15 (drop j (ball trks)))
                  \<or> clear_miss (take 15 (drop j (ball trks)))" by simp
  then show "\<exists>found. scan (ball trks) 0 1 [] g = Inr (found, g)"
    by (rule scan_no_ambiguous)
next
  show "analyze_trajectory w g =
        (if shot_attempt w
         then Inr ((True, if clear_make w then ''make''
                          else if clear_miss w then ''miss''
                          else if draws g (pos g) > rd 0.45 then ''make'' else ''miss''),
                   if clear_make w \<or> clear_miss w then g else g\<lparr>pos := pos g + 1\<rparr>)
         else Inr ((False, ''unknown''), g))"
    by (simp add: analyze_trajectory_eq classify_def)
qed

text \<open>
  The theorem at the streams whose ball is last seen at x = 1152 and at x = 1248, scanned
  from two states of the random source, and at the stream with no shot attempt. At 1152 the
  only shot is a make by the first outcome test, and at 1248 a miss by the second, both
  without a draw: the distances the code computes are the doubles just below 0.1 and just
  above 0.15. Both runs return the same shot: id 1, zone top-key, confidence 0.9 and 0.85.
\<close>

theorem detector_deterministic_witness:
  "10 \<le> length (ball (edge_track 1152))
   \<and> (\<exists>sh. scan (ball (edge_track 1152)) 0 1 [] half_draws = Inr ([sh], half_draws)
          \<and> detect_shots (edge_track 1152) (half_draws\<lparr>pos := 7\<rparr>) = Inr ([sh], half_draws\<lparr>pos := 7\<rparr>)
          \<and> detect_shots (edge_track 1152) half_draws = Inr ([sh], half_draws)
          \<and> shot_id sh = 1 \<and> outcome sh = ''make'' \<and> zone sh = ''top-key''
          \<and> confidence sh = rd 0.9)
   \<and> 10 \<le> length (ball (edge_track 1248))
   \<and> (\<exists>sh. scan (ball (edge_track 1248)) 0 1 [] half_draws = Inr ([sh], half_draws)
          \<and> detect_shots (edge_track 1248) (half_draws\<lparr>pos := 7\<rparr>) = Inr ([sh], half_draws\<lparr>pos := 7\<rparr>)
          \<and> detect_shots (edge_track 1248) half_draws = Inr ([sh], half_draws)
          \<and> shot_id sh = 1 \<and> outcome sh = ''miss'' \<and> zone sh = ''top-key''
          \<and> confidence sh = rd 0.85)
   \<and> (\<exists>found. scan (ball (flat_track 10)) 0 1 [] half_draws = Inr (found, half_draws))"
proof -
  have le: "10 \<le> length (ball (edge_track cx))" for cx by (simp add: edge_track_ball)
  define sh1 where "sh1 = window_shot 1 (edge_window 1152) ''make'' (get_zone 960 500)
                          (shot_conf (edge_window 1152))"
  have s1: "scan (ball (edge_track 1152)) 0 1 [] half_draws = Inr ([sh1], half_draws)"
    unfolding sh1_def using edge_scan[OF edge_1152(1), of half_draws] edge_1152(2,3) by simp
  from detector_deterministic[of "edge_track 1152" half_draws "[sh1]" "half_draws\<lparr>pos := 7\<rparr>"]
    le[of 1152] s1
  have a1: "detect_shots (edge_track 1152) (half_draws\<lparr>pos := 7\<rparr>) = Inr ([sh1], half_draws\<lparr>pos := 7\<rparr>)"
    and b1: "detect_shots (edge_track 1152) half_draws = Inr ([sh1], half_draws)"
    by simp_all
  have c1: "confidence sh1 = rd 0.9"
    unfolding sh1_def window_shot_sel
    by (rule shot_conf_1152) (simp_all add: edge_window_nth ball_at_sel)
  have f1: "shot_id sh1 = 1" "outcome sh1 = ''make''" "zone sh1 = ''top-key''"
    unfolding sh1_def by (simp_all add: window_shot_sel get_zone_960_500)
  from s1 a1 b1 f1 c1
  have A: "\<exists>sh. scan (ball (edge_track 1152)) 0 1 [] half_draws = Inr ([sh], half_draws)
          \<and> detect_shots (edge_track 1152) (half_draws\<lparr>pos := 7\<rparr>) = Inr ([sh], half_draws\<lparr>pos := 7\<rparr>)
          \<and> detect_shots (edge_track 1152) half_draws = Inr ([sh], half_draws)
          \<and> shot_id sh = 1 \<and> outcome sh = ''make'' \<and> zone sh = ''top-key''
          \<and> confidence sh = rd 0.9"
    by (intro exI[of _ sh1] conjI)
  define sh2 where "sh2 = window_shot 1 (edge_window 1248) ''miss'' (get_zone 960 500)
                          (shot_conf (edge_window 1248))"
  have s2: "scan (ball (edge_track 1248)) 0 1 [] half_draws = Inr ([sh2], half_draws)"
    unfolding sh2_def using edge_scan[OF edge_1248(1), of half_draws] edge_1248(2,3) by simp
  from detector_deterministic[of "edge_track 1248" half_draws "[sh2]" "half_draws\<lparr>pos := 7\<rparr>"]
    le[of 1248] s2
  have a2: "detect_shots (edge_track 1248) (half_draws\<lparr>pos := 7\<rparr>) = Inr ([sh2], half_draws\<lparr>pos := 7\<rparr>)"
    and b2: "detect_shots (edge_track 1248) half_draws = Inr ([sh2], half_draws)"
    by simp_all
  have c2: "confidence sh2 = rd 0.85"
    unfolding sh2_def window_shot_sel
    by (rule shot_conf_1248) (simp_all add: edge_window_nth ball_at_sel)
  have f2: "shot_id sh2 = 1" "outcome sh2 = ''miss''" "zone sh2 = ''top-key''"
    unfolding sh2_def by (simp_all add: window_shot_sel get_zone_960_500)
  from s2 a2 b2 f2 c2
  have B: "\<exists>sh. scan (ball (edge_track 1248)) 0 1 [] half_draws = Inr ([sh], half_draws)
          \<and> detect_shots (edge_track 1248) (half_draws\<lparr>pos := 7\<rparr>) = Inr ([sh], half_draws\<lparr>pos := 7\<rparr>)
          \<and> detect_shots (edge_track 1248) half_draws = Inr ([sh], half_draws)
          \<and> shot_id sh = 1 \<and> outcome sh = ''miss'' \<and> zone sh = ''top-key''
          \<and> confidence sh = rd 0.85"
    by (intro exI[of _ sh2] conjI)
  have "\<forall>j. int j < int (length (ball (flat_track 10))) - 5
            \<longrightarrow> shot_attempt (take 15 (drop j (ball (flat_track 10))))
            \<longrightarrow> clear_make (take 15 (drop j (ball (flat_track 10))))
                  \<or> clear_miss (take 15 (drop j (ball (flat_track 10))))"
    using flat_no_attempt by blast
  with detector_deterministic[of "flat_track 10" half_draws "[]" half_draws]
  have C: "\<exists>found. scan (ball (flat_track 10)) 0 1 [] half_draws = Inr (found, half_draws)"
    by blast
  from le[of 1152] A le[of 1248] B C show ?thesis by (intro conjI)
qed

text \<open>
  C10. With draws of the generator, \<^verbatim>\<open>_generate_mock_shots\<close> returns exactly 20 shot
  events with the ids 1 to 20 in order, each with the empty trajectory, an outcome that is
  make or miss and a confidence between 0.85 and 0.95 (the doubles of these literals, as a
  comparison in Python reads them). Whenever the fallback is taken, that is for a ball stream
  of fewer than 10 samples and for a longer stream whose scan detects no shot, this set of
  20 events is what \<^verbatim>\<open>_detect_shots\<close> returns. When the scan detects a shot the
  detector returns the detected shots, so that on every input the list it returns is not
  empty.
\<close>

theorem mock_shots_shape:
  assumes "valid_rng g"
  shows "(\<exists>ms g'. generate_mock_shots g = Inr (ms, g') \<and> length ms = 20
            \<and> map shot_id ms = [1..20]
            \<and> list_all (\<lambda>s. trajectory s = [] \<and> (outcome s = ''make'' \<or> outcome s = ''miss'')
                            \<and> rd 0.85 \<le> confidence s \<and> confidence s \<le> rd 0.95) ms)
         \<and> (length (ball trks) < 10 \<or> (\<exists>g1. scan (ball trks) 0 1 [] g = Inr ([], g1)) \<longrightarrow>
              (\<exists>ms g'. detect_shots trks g = Inr (ms, g') \<and> detect_shots trks g = generate_mock_shots g
                 \<and> length ms = 20 \<and> map shot_id ms = [1..20]
                 \<and> list_all (\<lambda>s. trajectory s = [] \<and> (outcome s = ''make'' \<or> outcome s = ''miss'')
                                 \<and> rd 0.85 \<le> confidence s \<and> confidence s \<le> rd 0.95) ms))
         \<and> (\<forall>found g1. 10 \<le> length (ball trks) \<and> scan (ball trks) 0 1 [] g = Inr (found, g1)
               \<and> found \<noteq> [] \<longrightarrow> detect_shots trks g = Inr (found, g1))
         \<and> (\<exists>found g'. detect_shots trks g = Inr (found, g') \<and> found \<noteq> [])"
proof -
  from generate_mock_shots_ok[OF assms] obtain ms g' where
    m: "generate_mock_shots g = Inr (ms, g')" and l: "length ms = 20" and
    ids: "map shot_id ms = [1..20]" and ok: "list_all mock_ok ms"
    by (elim exE conjE)
  from ok have sh: "list_all (\<lambda>s. trajectory s = [] \<and> (outcome s = ''make'' \<or> outcome s = ''miss'')
                            \<and> rd 0.85 \<le> confidence s \<and> confidence s \<le> rd 0.95) ms"
    by (simp add: list_all_iff mock_ok_def)
  with m l ids have a: "\<exists>ms g'. generate_mock_shots g = Inr (ms, g') \<and> length ms = 20
            \<and> map shot_id ms = [1..20]
            \<and> list_all (\<lambda>s. trajectory s = [] \<and> (outcome s = ''make'' \<or> outcome s = ''miss'')
                            \<and> rd 0.85 \<le> confidence s \<and> confidence s \<le> rd 0.95) ms"
    by blast
  have fb: "detect_shots trks g = generate_mock_shots g"
    if f: "length (ball trks) < 10 \<or> (\<exists>g1. scan (ball trks) 0 1 [] g = Inr ([], g1))"
  proof (cases "length (ball trks) < 10")
    case True
    then show ?thesis by (simp add: detect_shots_cases)
  next
    case False
    with f obtain g1 where s: "scan (ball trks) 0 1 [] g = Inr ([], g1)" by blast
    from scan_result[of "ball trks" 0 1 "[]" g] obtain new g2 where
      s2: "scan (ball trks) 0 1 [] g = Inr ([] @ new, g2)" and u: "new = [] \<longrightarrow> g2 = g"
      by (elim exE conjE)
    from s s2 u have "g1 = g" by simp
    with s False show ?thesis by (simp add: detect_shots_cases)
  qed
  have b: "length (ball trks) < 10 \<or> (\<exists>g1. scan (ball trks) 0 1 [] g = Inr ([], g1)) \<longrightarrow>
              (\<exists>ms g'. detect_shots trks g = Inr (ms, g') \<and> detect_shots trks g = generate_mock_shots g
                 \<and> length ms = 20 \<and> map shot_id ms = [1..20]
                 \<and> list_all (\<lambda>s. trajectory s = [] \<and> (outcome s = ''make'' \<or> outcome s = ''miss'')
                                 \<and> rd 0.85 \<le> confidence s \<and> confidence s \<le> rd 0.95) ms)"
  proof
    assume "length (ball trks) < 10 \<or> (\<exists>g1. scan (ball trks) 0 1 [] g = Inr ([], g1))"
    then have e: "detect_shots trks g = generate_mock_shots g" by (rule fb)
    from e m l ids sh show "\<exists>ms g'. detect_shots trks g = Inr (ms, g')
                 \<and> detect_shots trks g = generate_mock_shots g
                 \<and> length ms = 20 \<and> map shot_id ms = [1..20]
                 \<and> list_all (\<lambda>s. trajectory s = [] \<and> (outcome s = ''make'' \<or> outcome s = ''miss'')
                                 \<and> rd 0.85 \<le> confidence s \<and> confidence s \<le> rd 0.95) ms"
      by (intro exI[of _ ms] exI[of _ g']) simp
  qed
  have c: "\<forall>found g1. 10 \<le> length (ball trks) \<and> scan (ball trks) 0 1 [] g = Inr (found, g1)
               \<and> found \<noteq> [] \<longrightarrow> detect_shots trks g = Inr (found, g1)"
    by (simp add: detect_shots_cases)
  from detect_shots_nonempty[OF assms, of trks]
  have d: "\<exists>found g'. detect_shots trks g = Inr (found, g') \<and> found \<noteq> []" .
  from a b c d show ?thesis by (intro conjI)
qed

text \<open>
  The theorem at the random source whose every draw is one half: at the empty ball stream
  and at the stream of 10 samples with no shot attempt the fallback is taken and the detector
  returns the 20 synthetic events; at the rising track the scan detects a shot and the
  detector returns it.
\<close>

theorem mock_shots_shape_witness:
  "valid_rng half_draws
   \<and> (\<exists>ms g'. generate_mock_shots half_draws = Inr (ms, g') \<and> length ms = 20
          \<and> map shot_id ms = [1..20])
   \<and> length (ball (flat_track 0)) < 10
   \<and> (\<exists>ms g'. detect_shots (flat_track 0) half_draws = Inr (ms, g') \<and> length ms = 20
          \<and> map shot_id ms = [1..20]
          \<and> list_all (\<lambda>s. trajectory s = [] \<and> (outcome s = ''make'' \<or> outcome s = ''miss'')
                          \<and> rd 0.85 \<le> confidence s \<and> confidence s \<le> rd 0.95) ms)
   \<and> (\<exists>g1. scan (ball (flat_track 10)) 0 1 [] half_draws = Inr ([], g1))
   \<and> (\<exists>ms g'. detect_shots (flat_track 10) half_draws = Inr (ms, g') \<and> length ms = 20
          \<and> map shot_id ms = [1..20]
          \<and> list_all (\<lambda>s. trajectory s = [] \<and> (outcome s = ''make'' \<or> outcome s = ''miss'')
                          \<and> rd 0.85 \<le> confidence s \<and> confidence s \<le> rd 0.95) ms)
   \<and> (\<exists>sh g'. scan (ball rising_track) 0 1 [] half_draws = Inr ([sh], g')
          \<and> detect_shots rising_track half_draws = Inr ([sh], g'))"
proof -
  note v = valid_half_draws
  note t0 = mock_shots_shape[OF v, of "flat_track 0"]
  note t10 = mock_shots_shape[OF v, of "flat_track 10"]
  note tr = mock_shots_shape[OF v, of rising_track]
  have a: "\<exists>ms g'. generate_mock_shots half_draws = Inr (ms, g') \<and> length ms = 20
          \<and> map shot_id ms = [1..20]"
    using t0[THEN conjunct1] by blast
  have l0: "length (ball (flat_track 0)) < 10" by (simp add: flat_track_def)
  then have h0: "length (ball (flat_track 0)) < 10
      \<or> (\<exists>g1. scan (ball (flat_track 0)) 0 1 [] half_draws = Inr ([], g1))" by simp
  from t0[THEN conjunct2, THEN conjunct1] h0
  have b: "\<exists>ms g'. detect_shots (flat_track 0) half_draws = Inr (ms, g')
          \<and> detect_shots (flat_track 0) half_draws = generate_mock_shots half_draws
          \<and> length ms = 20 \<and> map shot_id ms = [1..20]
          \<and> list_all (\<lambda>s. trajectory s = [] \<and> (outcome s = ''make'' \<or> outcome s = ''miss'')
                          \<and> rd 0.85 \<le> confidence s \<and> confidence s \<le> rd 0.95) ms"
    by (rule mp)
  then have b': "\<exists>ms g'. detect_shots (flat_track 0) half_draws = Inr (ms, g') \<and> length ms = 20
          \<and> map shot_id ms = [1..20]
          \<and> list_all (\<lambda>s. trajectory s = [] \<and> (outcome s = ''make'' \<or> outcome s = ''miss'')
                          \<and> rd 0.85 \<le> confidence s \<and> confidence s \<le> rd 0.95) ms"
    by (elim exE conjE) (intro exI conjI)
  have s10: "\<exists>g1. scan (ball (flat_track 10)) 0 1 [] half_draws = Inr ([], g1)"
    using flat_scan[of 10 half_draws] by blast
  then have h10: "length (ball (flat_track 10)) < 10
      \<or> (\<exists>g1. scan (ball (flat_track 10)) 0 1 [] half_draws = Inr ([], g1))" by simp
  from t10[THEN conjunct2, THEN conjunct1] h10
  have c: "\<exists>ms g'. detect_shots (flat_track 10) half_draws = Inr (ms, g')
          \<and> detect_shots (flat_track 10) half_draws = generate_mock_shots half_draws
          \<and> length ms = 20 \<and> map shot_id ms = [1..20]
          \<and> list_all (\<lambda>s. trajectory s = [] \<and> (outcome s = ''make'' \<or> outcome s = ''miss'')
                          \<and> rd 0.85 \<le> confidence s \<and> confidence s \<le> rd 0.95) ms"
    by (rule mp)
  then have c': "\<exists>ms g'. detect_shots (flat_track 10) half_draws = Inr (ms, g') \<and> length ms = 20
          \<and> map shot_id ms = [1..20]
          \<and> list_all (\<lambda>s. trajectory s = [] \<and> (outcome s = ''make'' \<or> outcome s = ''miss'')
                          \<and> rd 0.85 \<le> confidence s \<and> confidence s \<le> rd 0.95) ms"
    by (elim exE conjE) (intro exI conjI)
  from rising_track_scan[of half_draws] obtain sh where
    s: "scan (ball rising_track) 0 1 [] half_draws = Inr ([sh], half_draws)" by blast
  have lr: "10 \<le> length (ball rising_track)" by (simp add: rising_track_ball)
  from tr[THEN conjunct2, THEN conjunct2, THEN conjunct1] lr s
  have "detect_shots rising_track half_draws = Inr ([sh], half_draws)" by simp
  with s have d: "\<exists>sh g'. scan (ball rising_track) 0 1 [] half_draws = Inr ([sh], g')
          \<and> detect_shots rising_track half_draws = Inr ([sh], g')" by blast
  from v a l0 b' s10 c' d show ?thesis by (intro conjI)
qed

section \<open>Object tracker: results\<close>

subsection \<open>The nearest live track\<close>










subsection \<open>Track ids\<close>

















subsection \<open>Two detections in consecutive frames\<close>


















subsection \<open>Properties of the tracker\<close>



end
